theory Spec2Isabelle
  imports Main "HOL-Library.AList" "HOL-Library.Char_ord" "HOL-Library.List_Lexorder"
begin

section \<open>The reflect interface the generator walks\<close>

text \<open>
  The generator (\<^verbatim>\<open>jsonschema.go\<close>) never looks at Go data directly: it asks
  \<^verbatim>\<open>reflect\<close> for the kind of a type, its printed name, its element type, its
  fields, and, in deep mode, for the elements, entries, fields and targets of a value.
  The embedding below gives exactly these observations.

  \<^item> \<open>kind\<close> is \<^verbatim>\<open>reflect.Kind\<close>, all 27 constants. \<^verbatim>\<open>reflect.Int\<close> is written
    \<open>Int'\<close>, since \<open>Int\<close> is taken by the syntax of sets.
  \<^item> \<open>rtype\<close> is a \<^verbatim>\<open>reflect.Type\<close>. Every type carries the text that
    \<^verbatim>\<open>t.String()\<close> prints. The kinds the walker descends into (slice, map, pointer,
    struct) have a constructor of their own that holds what \<^verbatim>\<open>t.Elem()\<close> or
    \<^verbatim>\<open>t.Field(i)\<close> return, so these calls cannot fail; an interface type has no
    parts; every other kind is a \<open>Basic\<close> type.
  \<^item> \<open>structField\<close> is a \<^verbatim>\<open>reflect.StructField\<close>: its name, the value of the
    \<^verbatim>\<open>json\<close> key of its tag (what \<^verbatim>\<open>field.Tag.Get("json")\<close> returns, the empty
    string when the key is absent), the embedded flag and its type.
  \<^item> \<open>rvalue\<close> is a valid \<^verbatim>\<open>reflect.Value\<close>; the zero Value (for which
    \<^verbatim>\<open>IsValid()\<close> is false) is \<open>None\<close> of \<open>rvalue option\<close>. A nil pointer and
    a nil interface hold \<open>None\<close>, which is what \<^verbatim>\<open>v.Elem()\<close> returns for them.
    The entries of a map value are listed in the order in which \<^verbatim>\<open>MapRange\<close>
    happens to yield them.

  Types and values are finite trees here. A Go type that mentions itself (a struct
  with a field of type pointer to the same struct) and a value that reaches itself
  through pointers are outside this embedding; on them the walk of the source
  does not return.
\<close>

datatype kind =
    Invalid | Bool | Int' | Int8 | Int16 | Int32 | Int64
  | Uint | Uint8 | Uint16 | Uint32 | Uint64 | Uintptr
  | Float32 | Float64 | Complex64 | Complex128
  | Array | Chan | Func | Interface | Map | Ptr | Slice | String | Struct | UnsafePointer

datatype basic =
    BBool | BInt | BInt8 | BInt16 | BInt32 | BInt64
  | BUint | BUint8 | BUint16 | BUint32 | BUint64 | BUintptr
  | BFloat32 | BFloat64 | BComplex64 | BComplex128
  | BArray | BChan | BFunc | BString | BUnsafePointer

fun kind_of_basic :: "basic \<Rightarrow> kind" where
  "kind_of_basic BBool = Bool"
| "kind_of_basic BInt = Int'"
| "kind_of_basic BInt8 = Int8"
| "kind_of_basic BInt16 = Int16"
| "kind_of_basic BInt32 = Int32"
| "kind_of_basic BInt64 = Int64"
| "kind_of_basic BUint = Uint"
| "kind_of_basic BUint8 = Uint8"
| "kind_of_basic BUint16 = Uint16"
| "kind_of_basic BUint32 = Uint32"
| "kind_of_basic BUint64 = Uint64"
| "kind_of_basic BUintptr = Uintptr"
| "kind_of_basic BFloat32 = Float32"
| "kind_of_basic BFloat64 = Float64"
| "kind_of_basic BComplex64 = Complex64"
| "kind_of_basic BComplex128 = Complex128"
| "kind_of_basic BArray = Array"
| "kind_of_basic BChan = Chan"
| "kind_of_basic BFunc = Func"
| "kind_of_basic BString = String"
| "kind_of_basic BUnsafePointer = UnsafePointer"

datatype rtype =
    Basic string basic
  | InterfaceType string
  | SliceOf string rtype
  | MapOf string rtype rtype
  | PtrTo string rtype
  | StructOf string "structField list"
and structField =
    StructField (field_Name: string) (field_Tag_json: string) (field_Anonymous: bool)
      (field_Type: rtype)

text \<open>\<^verbatim>\<open>t.Kind()\<close> and \<^verbatim>\<open>t.String()\<close>.\<close>

fun Kind :: "rtype \<Rightarrow> kind" where
  "Kind (Basic n b) = kind_of_basic b"
| "Kind (InterfaceType n) = Interface"
| "Kind (SliceOf n e) = Slice"
| "Kind (MapOf n k e) = Map"
| "Kind (PtrTo n e) = Ptr"
| "Kind (StructOf n fs) = Struct"

fun type_String :: "rtype \<Rightarrow> string" where
  "type_String (Basic n b) = n"
| "type_String (InterfaceType n) = n"
| "type_String (SliceOf n e) = n"
| "type_String (MapOf n k e) = n"
| "type_String (PtrTo n e) = n"
| "type_String (StructOf n fs) = n"

datatype rvalue =
    VBasic string basic string
  | VInterface string "rvalue option"
  | VSlice string rtype "rvalue list"
  | VMap string rtype rtype "(rvalue \<times> rvalue) list"
  | VPtr string rtype "rvalue option"
  | VStruct string "(structField \<times> rvalue) list"

text \<open>
  \<^verbatim>\<open>v.Type()\<close> of a valid Value. The third argument of \<open>VBasic\<close> is the text of
  a string value; the walker reads it only for map keys of kind String.
\<close>

fun Value_Type :: "rvalue \<Rightarrow> rtype" where
  "Value_Type (VBasic n b c) = Basic n b"
| "Value_Type (VInterface n x) = InterfaceType n"
| "Value_Type (VSlice n e vs) = SliceOf n e"
| "Value_Type (VMap n k e es) = MapOf n k e"
| "Value_Type (VPtr n e x) = PtrTo n e"
| "Value_Type (VStruct n fvs) = StructOf n (map fst fvs)"

text \<open>
  \<^verbatim>\<open>v.String()\<close>: the text of a string, \<^verbatim>\<open><invalid Value>\<close> for the zero Value,
  and \<^verbatim>\<open><T Value>\<close> with the printed type \<open>T\<close> for every other value.
\<close>

fun Value_String :: "rvalue option \<Rightarrow> string" where
  "Value_String None = ''<invalid Value>''"
| "Value_String (Some (VBasic n BString c)) = c"
| "Value_String (Some v) = ''<'' @ type_String (Value_Type v) @ '' Value>''"

section \<open>Tag parser\<close>

text \<open>
  \<^verbatim>\<open>strings.Index(s, substr)\<close>: the index of the first instance of \<open>substr\<close> in
  \<open>s\<close>, or \<open>-1\<close>.
\<close>

fun strings_Index :: "string \<Rightarrow> string \<Rightarrow> int" where
  "strings_Index [] substr = (if substr = [] then 0 else - 1)"
| "strings_Index (c # cs) substr =
     (if take (length substr) (c # cs) = substr then 0
      else (let r = strings_Index cs substr in if r < 0 then - 1 else r + 1))"

text \<open>\<open>tagOptions\<close> is a string: the text after the first comma of the tag.\<close>

type_synonym tagOptions = string

definition parseTag :: "string \<Rightarrow> string \<times> tagOptions" where
  "parseTag tag =
     (let idx = strings_Index tag '','' in
      if idx \<noteq> - 1 then (take (nat idx) tag, drop (nat idx + 1) tag) else (tag, ''''))"

text \<open>
  The loop of \<^verbatim>\<open>tagOptions.Contains\<close>: \<open>s\<close> is the text still to scan. When there is
  no comma left, \<open>next\<close> is empty and the loop ends after the comparison.
\<close>

function Contains_loop :: "string \<Rightarrow> string \<Rightarrow> bool" where
  "Contains_loop s optionName =
     (if s = '''' then False
      else if 0 \<le> strings_Index s '','' then
        (if take (nat (strings_Index s '','')) s = optionName then True
         else Contains_loop (drop (nat (strings_Index s '','') + 1) s) optionName)
      else
        (if s = optionName then True else Contains_loop '''' optionName))"
  by pat_completeness auto
termination
  by (relation "measure (\<lambda>(s, optionName). length s)") auto

definition Contains :: "tagOptions \<Rightarrow> string \<Rightarrow> bool" where
  "Contains o' optionName = (if length o' = 0 then False else Contains_loop o' optionName)"

section \<open>Kind mapper\<close>

definition defaultSchema :: string where
  "defaultSchema = ''http://json-schema.org/schema#''"

text \<open>
  \<^verbatim>\<open>formatMapping\<close> has one key; its value is the two-element list that
  \<^verbatim>\<open>getTypeFromMapping\<close> reads at indices 0 and 1, given here as a pair.
\<close>

definition formatMapping :: "string \<Rightarrow> (string \<times> string) option" where
  "formatMapping n = (if n = ''time.Time'' then Some (''string'', ''date-time'') else None)"

fun kindMapping :: "kind \<Rightarrow> string option" where
  "kindMapping Bool = Some ''boolean''"
| "kindMapping Int' = Some ''integer''"
| "kindMapping Int8 = Some ''integer''"
| "kindMapping Int16 = Some ''integer''"
| "kindMapping Int32 = Some ''integer''"
| "kindMapping Int64 = Some ''integer''"
| "kindMapping Uint = Some ''integer''"
| "kindMapping Uint8 = Some ''integer''"
| "kindMapping Uint16 = Some ''integer''"
| "kindMapping Uint32 = Some ''integer''"
| "kindMapping Uint64 = Some ''integer''"
| "kindMapping Float32 = Some ''number''"
| "kindMapping Float64 = Some ''number''"
| "kindMapping String = Some ''string''"
| "kindMapping Slice = Some ''array''"
| "kindMapping Struct = Some ''object''"
| "kindMapping Map = Some ''object''"
| "kindMapping _ = None"

definition getTypeFromMapping :: "rtype \<Rightarrow> string \<times> string \<times> kind" where
  "getTypeFromMapping t =
     (case formatMapping (type_String t) of
        Some (v0, v1) \<Rightarrow> (v0, v1, String)
      | None \<Rightarrow>
          (case kindMapping (Kind t) of
             Some v \<Rightarrow> (v, '''', Kind t)
           | None \<Rightarrow> ('''', '''', Kind t)))"

section \<open>Schema nodes\<close>

text \<open>
  The struct \<^verbatim>\<open>property\<close>. \<open>Items\<close> and \<open>Properties\<close> are \<open>None\<close> for a nil
  pointer and a nil map. A \<^verbatim>\<open>map[string]*property\<close> is an association list with
  distinct keys; \<^verbatim>\<open>m[k] = v\<close> is \<open>AList.update k v m\<close>. The order of the list has
  no meaning in Go; what a map holds is \<open>map_of\<close> of the list. A node is not
  assigned again once it is stored under \<^verbatim>\<open>Items\<close> or in a map, so a pointer to a
  node is the node.
\<close>

datatype property =
  Property (Type: string) (Format: string) (Items: "property option")
    (Properties: "(string \<times> property) list option") (Required: "string list")
    (AdditionalProperties: bool)

text \<open>The zero value \<^verbatim>\<open>&property{}\<close>.\<close>

definition empty_property :: property where
  "empty_property = Property '''' '''' None None [] False"

text \<open>Assignments to one field.\<close>

fun set_Type :: "string \<Rightarrow> property \<Rightarrow> property" where
  "set_Type v (Property t f i ps r a) = Property v f i ps r a"

fun set_Format :: "string \<Rightarrow> property \<Rightarrow> property" where
  "set_Format v (Property t f i ps r a) = Property t v i ps r a"

fun set_Items :: "property option \<Rightarrow> property \<Rightarrow> property" where
  "set_Items v (Property t f i ps r a) = Property t f v ps r a"

fun set_Properties :: "(string \<times> property) list option \<Rightarrow> property \<Rightarrow> property" where
  "set_Properties v (Property t f i ps r a) = Property t f i v r a"

fun set_Required :: "string list \<Rightarrow> property \<Rightarrow> property" where
  "set_Required v (Property t f i ps r a) = Property t f i ps v a"

fun set_AdditionalProperties :: "bool \<Rightarrow> property \<Rightarrow> property" where
  "set_AdditionalProperties v (Property t f i ps r a) = Property t f i ps r v"

text \<open>
  \<^verbatim>\<open>for name, property := range m { dst[name] = property }\<close>, where ranging over a
  nil map does nothing.
\<close>

definition range_assign ::
  "(string \<times> property) list \<Rightarrow> (string \<times> property) list option \<Rightarrow> (string \<times> property) list"
where
  "range_assign dst m =
     (case m of
        None \<Rightarrow> dst
      | Some al \<Rightarrow> foldl (\<lambda>d (name, property). AList.update name property d) dst al)"

section \<open>Shallow inference\<close>

text \<open>
  \<open>readFromStruct_fields\<close> is the loop over the fields in \<^verbatim>\<open>readFromStruct\<close>; its
  state is what the loop assigns: the map \<^verbatim>\<open>p.Properties\<close> (allocated just before
  the loop) and the slice \<^verbatim>\<open>p.Required\<close>.
\<close>

definition readFromMap :: "property \<Rightarrow> rtype \<Rightarrow> property" where
  "readFromMap p t =
     (case t of
        MapOf n k e \<Rightarrow>
          (case getTypeFromMapping e of
             (jsType, format, _) \<Rightarrow>
               if jsType \<noteq> '''' then
                 set_Properties
                   (Some (AList.update ''.*'' (Property jsType format None None [] False) [])) p
               else set_AdditionalProperties True p)
      | _ \<Rightarrow> p)"

fun read :: "property \<Rightarrow> rtype \<Rightarrow> tagOptions \<Rightarrow> property"
  and readFromSlice :: "property \<Rightarrow> rtype \<Rightarrow> property"
  and readFromStruct :: "property \<Rightarrow> rtype \<Rightarrow> property"
  and readFromStruct_fields ::
    "(string \<times> property) list \<Rightarrow> string list \<Rightarrow> structField list
       \<Rightarrow> (string \<times> property) list \<times> string list"
where
  "read p t opts =
     (case getTypeFromMapping t of
        (jsType, format, kind) \<Rightarrow>
          (let p1 = (if jsType \<noteq> '''' then set_Type jsType p else p);
               p2 = (if format \<noteq> '''' then set_Format format p1 else p1)
           in if kind = Slice then readFromSlice p2 t
              else if kind = Map then readFromMap p2 t
              else if kind = Struct then readFromStruct p2 t
              else if kind = Ptr then (case t of PtrTo n e \<Rightarrow> read p2 e opts | _ \<Rightarrow> p2)
              else p2))"
| "readFromSlice p (SliceOf n e) =
     (case getTypeFromMapping e of
        (jsType, _, kind) \<Rightarrow>
          if kind = Uint8 then set_Type ''string'' p
          else if jsType \<noteq> '''' then set_Items (Some (read empty_property e '''')) p
          else p)"
| "readFromSlice p _ = p"
| "readFromStruct p (StructOf n fs) =
     (case readFromStruct_fields [] (Required p) fs of
        (props, req) \<Rightarrow>
          set_Required req
            (set_AdditionalProperties False (set_Properties (Some props) (set_Type ''object'' p))))"
| "readFromStruct p _ = p"
| "readFromStruct_fields props req [] = (props, req)"
| "readFromStruct_fields props req (StructField fname tag anonymous ftype # fs) =
     (case parseTag tag of
        (name0, opts) \<Rightarrow>
          (let name = (if name0 = '''' then fname else name0) in
           if name = ''-'' then readFromStruct_fields props req fs
           else if anonymous then
             (let embeddedProperty = read empty_property ftype opts in
              readFromStruct_fields
                (range_assign props (Properties embeddedProperty))
                (req @ Required embeddedProperty) fs)
           else
             readFromStruct_fields
               (AList.update name (read empty_property ftype opts) props)
               (if \<not> Contains opts ''omitempty'' then req @ [name] else req) fs))"

section \<open>Deep inference\<close>

text \<open>
  \<^verbatim>\<open>mapKeyToString\<close>: a key of kind Interface is unwrapped first. The zero Value
  has kind Invalid.
\<close>

fun mapKeyToString :: "rvalue option \<Rightarrow> string" where
  "mapKeyToString (Some (VInterface n x)) = mapKeyToString x"
| "mapKeyToString key = Value_String key"

text \<open>
  \<open>readFromMapDeep_entries\<close> is the loop over \<^verbatim>\<open>v.MapRange()\<close> on the local map
  \<^verbatim>\<open>properties\<close>; \<open>readFromStructDeep_fields\<close> is the loop over the fields, each
  \<^verbatim>\<open>t.Field(i)\<close> paired with \<^verbatim>\<open>v.Field(i)\<close>. In \<^verbatim>\<open>readFromSliceDeep\<close> the call
  \<^verbatim>\<open>p.Items.readDeep(v.Index(0), "")\<close> of the empty branch stands behind a second
  test of \<^verbatim>\<open>v.Len() == 0\<close> that always returns first; it is never reached and has
  no counterpart here.
\<close>

function (sequential) readDeep :: "property \<Rightarrow> rvalue option \<Rightarrow> tagOptions \<Rightarrow> property"
  and readFromSliceDeep :: "property \<Rightarrow> rvalue \<Rightarrow> property"
  and readFromMapDeep :: "property \<Rightarrow> rvalue \<Rightarrow> property"
  and readFromMapDeep_entries ::
    "(string \<times> property) list \<Rightarrow> (rvalue \<times> rvalue) list \<Rightarrow> (string \<times> property) list"
  and readFromStructDeep :: "property \<Rightarrow> rvalue \<Rightarrow> property"
  and readFromStructDeep_fields ::
    "(string \<times> property) list \<Rightarrow> string list \<Rightarrow> (structField \<times> rvalue) list
       \<Rightarrow> (string \<times> property) list \<times> string list"
where
  "readDeep p None opts = set_Type ''null'' p"
| "readDeep p (Some v) opts =
     (case getTypeFromMapping (Value_Type v) of
        (jsType, format, kind) \<Rightarrow>
          (let p1 = (if jsType \<noteq> '''' then set_Type jsType p else p);
               p2 = (if format \<noteq> '''' then set_Format format p1 else p1)
           in if kind = Slice then readFromSliceDeep p2 v
              else if kind = Map then readFromMapDeep p2 v
              else if kind = Struct then readFromStructDeep p2 v
              else if kind = Ptr \<or> kind = Interface then
                (case v of
                   VPtr n e x \<Rightarrow> readDeep p2 x opts
                 | VInterface n x \<Rightarrow> readDeep p2 x opts
                 | _ \<Rightarrow> p2)
              else p2))"
| "readFromSliceDeep p (VSlice n e []) =
     (case getTypeFromMapping e of
        (jsType, _, kind) \<Rightarrow>
          if kind = Uint8 then set_Type ''string'' p
          else if jsType \<noteq> '''' then set_Items (Some (read empty_property e '''')) p
          else p)"
| "readFromSliceDeep p (VSlice n e (v0 # vs)) =
     (case getTypeFromMapping (Value_Type v0) of
        (_, _, kind) \<Rightarrow>
          if kind = Uint8 then set_Type ''string'' p
          else set_Items (Some (readDeep empty_property (Some v0) '''')) p)"
| "readFromSliceDeep p _ = p"
| "readFromMapDeep p (VMap n k e es) =
     (let properties = readFromMapDeep_entries [] es in
      if length properties > 0 then set_Properties (Some properties) p else p)"
| "readFromMapDeep p _ = p"
| "readFromMapDeep_entries properties [] = properties"
| "readFromMapDeep_entries properties ((key, val) # es) =
     readFromMapDeep_entries
       (AList.update (mapKeyToString (Some key)) (readDeep empty_property (Some val) '''')
          properties) es"
| "readFromStructDeep p (VStruct n fvs) =
     (case readFromStructDeep_fields [] (Required p) fvs of
        (props, req) \<Rightarrow>
          set_Required req
            (set_AdditionalProperties False (set_Properties (Some props) (set_Type ''object'' p))))"
| "readFromStructDeep p _ = p"
| "readFromStructDeep_fields props req [] = (props, req)"
| "readFromStructDeep_fields props req ((StructField fname tag anonymous ftype, fval) # fvs) =
     (case parseTag tag of
        (name0, opts) \<Rightarrow>
          (let name = (if name0 = '''' then fname else name0) in
           if name = ''-'' then readFromStructDeep_fields props req fvs
           else if anonymous then
             (let embeddedProperty = readDeep empty_property (Some fval) opts in
              readFromStructDeep_fields
                (range_assign props (Properties embeddedProperty))
                (req @ Required embeddedProperty) fvs)
           else
             readFromStructDeep_fields
               (AList.update name (readDeep empty_property (Some fval) opts) props)
               (if \<not> Contains opts ''omitempty'' then req @ [name] else req) fvs))"
  by pat_completeness auto
termination
  by (relation "measure
     (\<lambda>x. case x of
        Inl (Inl (p, v, opts)) \<Rightarrow> size_option size v
      | Inl (Inr (Inl (p, v))) \<Rightarrow> size v
      | Inl (Inr (Inr (p, v))) \<Rightarrow> size v
      | Inr (Inl (m, es)) \<Rightarrow> size_list (size_prod size size) es
      | Inr (Inr (Inl (p, v))) \<Rightarrow> size v
      | Inr (Inr (Inr (m, r, fvs))) \<Rightarrow> size_list (size_prod (\<lambda>x. 0) size) fvs)") auto

section \<open>Document\<close>

text \<open>
  The struct \<^verbatim>\<open>Document\<close>: the dialect and the embedded root node. The argument
  \<^verbatim>\<open>variable interface{}\<close> of \<^verbatim>\<open>Read\<close> and \<^verbatim>\<open>ReadDeep\<close> is \<open>None\<close> for nil and
  \<open>Some v\<close> otherwise, which is also what \<^verbatim>\<open>reflect.ValueOf\<close> makes of it: the zero
  Value for nil. \<^verbatim>\<open>Type()\<close> of the zero Value panics.
\<close>

record Document =
  Schema :: string
  property :: property

datatype panic = Type_on_zero_Value

definition NewDocument :: "string \<Rightarrow> Document" where
  "NewDocument schema = \<lparr>Schema = schema, property = empty_property\<rparr>"

definition setDefaultSchema :: "Document \<Rightarrow> Document" where
  "setDefaultSchema d = (if Schema d = '''' then d\<lparr>Schema := defaultSchema\<rparr> else d)"

definition Read :: "Document \<Rightarrow> rvalue option \<Rightarrow> panic + Document" where
  "Read d variable =
     (let d1 = setDefaultSchema d in
      case variable of
        None \<Rightarrow> Inl Type_on_zero_Value
      | Some v \<Rightarrow> Inr (d1\<lparr>property := read (property d1) (Value_Type v) ''''\<rparr>))"

definition ReadDeep :: "Document \<Rightarrow> rvalue option \<Rightarrow> Document" where
  "ReadDeep d variable =
     (let d1 = setDefaultSchema d in
      d1\<lparr>property := readDeep (property d1) variable ''''\<rparr>)"

section \<open>What one struct member contributes\<close>

text \<open>
  Names for what one pass of the field loops computes, used to state the results of the
  loops. \<open>resolved_name\<close> and \<open>field_options\<close> are the \<^verbatim>\<open>name\<close> and \<^verbatim>\<open>opts\<close> of
  the loop body (\<^verbatim>\<open>parseTag\<close>, then the field's own name when the tag gives none);
  \<open>member_node\<close> is the node the loop infers for the member, in shallow and in deep
  mode. Given that node, \<open>member_keys\<close> and \<open>member_required\<close> list the keys the pass
  assigns in \<^verbatim>\<open>p.Properties\<close> and the names it appends to \<^verbatim>\<open>p.Required\<close>: nothing
  for the name \<^verbatim>\<open>-\<close>; for an embedded member the property names and the required
  names of its node; otherwise the resolved name, and for \<^verbatim>\<open>required\<close> only when
  the options lack \<^verbatim>\<open>omitempty\<close>.
\<close>

definition resolved_name :: "structField \<Rightarrow> string" where
  "resolved_name f =
     (case parseTag (field_Tag_json f) of
        (name0, opts) \<Rightarrow> if name0 = '''' then field_Name f else name0)"

definition field_options :: "structField \<Rightarrow> tagOptions" where
  "field_options f = snd (parseTag (field_Tag_json f))"

definition member_node :: "structField \<Rightarrow> property" where
  "member_node f = read empty_property (field_Type f) (field_options f)"

definition member_node_deep :: "structField \<times> rvalue \<Rightarrow> property" where
  "member_node_deep fv = readDeep empty_property (Some (snd fv)) (field_options (fst fv))"

definition property_names :: "property \<Rightarrow> string list" where
  "property_names p = (case Properties p of None \<Rightarrow> [] | Some al \<Rightarrow> map fst al)"

definition member_keys :: "structField \<Rightarrow> property \<Rightarrow> string list" where
  "member_keys f node =
     (if resolved_name f = ''-'' then []
      else if field_Anonymous f then property_names node
      else [resolved_name f])"

definition member_required :: "structField \<Rightarrow> property \<Rightarrow> string list" where
  "member_required f node =
     (if resolved_name f = ''-'' then []
      else if field_Anonymous f then Required node
      else if Contains (field_options f) ''omitempty'' then []
      else [resolved_name f])"

section \<open>A node after a further walk\<close>

text \<open>
  \<open>overlaid old fresh new\<close> relates three nodes field by field: \<open>new\<close> has the type
  and format of \<open>fresh\<close> where they are not empty and those of \<open>old\<close> otherwise, the
  items and properties of \<open>fresh\<close> where they are set and those of \<open>old\<close> otherwise,
  the required names of \<open>old\<close> followed by those of \<open>fresh\<close>, and an
  \<^verbatim>\<open>additionalProperties\<close> flag that is set when that of \<open>fresh\<close> is, and only
  when that of \<open>old\<close> or of \<open>fresh\<close> is.
\<close>

definition overlaid :: "property \<Rightarrow> property \<Rightarrow> property \<Rightarrow> bool" where
  "overlaid old fresh new \<longleftrightarrow>
     Type new = (if Type fresh = '''' then Type old else Type fresh) \<and>
     Format new = (if Format fresh = '''' then Format old else Format fresh) \<and>
     Items new = (case Items fresh of None \<Rightarrow> Items old | Some i \<Rightarrow> Some i) \<and>
     Properties new = (case Properties fresh of None \<Rightarrow> Properties old | Some m \<Rightarrow> Some m) \<and>
     Required new = Required old @ Required fresh \<and>
     (AdditionalProperties fresh \<longrightarrow> AdditionalProperties new) \<and>
     (AdditionalProperties new \<longrightarrow> AdditionalProperties old \<or> AdditionalProperties fresh)"

section \<open>Serialization\<close>

text \<open>
  \<^verbatim>\<open>Document.Marshal\<close> is one call, \<^verbatim>\<open>json.MarshalIndent(d, "", "    ")\<close>, of Go's
  \<^verbatim>\<open>encoding/json\<close>, which is not code of this repository. What follows is that
  encoder on the two struct types of the repository, as the package documents it
  and as the tags of the source direct it:

  \<^item> a struct is an object with its fields in declaration order, each under the name
    of its tag; the fields of the embedded struct \<^verbatim>\<open>property\<close> stand in the
    Document's object itself, after \<^verbatim>\<open>$schema\<close>;
  \<^item> every field is tagged \<^verbatim>\<open>omitempty\<close>: an empty string, a nil pointer, a map and
    a slice of length 0 and \<^verbatim>\<open>false\<close> are left out;
  \<^item> a map is an object whose members are sorted by key, as byte strings; the runtime
    hands the entries over in no particular order, which is the order of the
    association list here;
  \<^item> the text is indented by four spaces per level, one member or element per line,
    with \<^verbatim>\<open>{}\<close> for an object without members.

  The JSON text of a string (quotes and escapes) is the parameter \<open>q\<close>. The encoder
  returns no error on these types, so \<open>Marshal\<close> is the text alone.
\<close>

datatype json = JString string | JBool bool | JArray "json list" | JObject "(string \<times> json) list"

fun property_members :: "property \<Rightarrow> (string \<times> json) list" where
  "property_members (Property t f i ps r a) =
     (if t = '''' then [] else [(''type'', JString t)]) @
     (if f = '''' then [] else [(''format'', JString f)]) @
     (case i of None \<Rightarrow> [] | Some x \<Rightarrow> [(''items'', JObject (property_members x))]) @
     (case ps of
        None \<Rightarrow> []
      | Some m \<Rightarrow>
          if length m = 0 then []
          else [(''properties'',
                 JObject (map (\<lambda>(k, c). (k, JObject (property_members c))) (sort_key fst m)))]) @
     (if length r = 0 then [] else [(''required'', JArray (map JString r))]) @
     (if a then [(''additionalProperties'', JBool True)] else [])"

definition Document_members :: "Document \<Rightarrow> (string \<times> json) list" where
  "Document_members d =
     (if Schema d = '''' then [] else [(''$schema'', JString (Schema d))]) @
     property_members (property d)"

definition indent :: "nat \<Rightarrow> string" where
  "indent n = replicate (4 * n) CHR '' ''"

fun join_lines :: "string list \<Rightarrow> string" where
  "join_lines [] = ''''"
| "join_lines [x] = x"
| "join_lines (x # y # ys) = x @ '','' @ [CHR 0x0A] @ join_lines (y # ys)"

fun render :: "(string \<Rightarrow> string) \<Rightarrow> nat \<Rightarrow> json \<Rightarrow> string" where
  "render q n (JString s) = q s"
| "render q n (JBool b) = (if b then ''true'' else ''false'')"
| "render q n (JArray xs) =
     (if xs = [] then ''[]''
      else ''['' @ [CHR 0x0A]
        @ join_lines (map (\<lambda>x. indent (n + 1) @ render q (n + 1) x) xs)
        @ [CHR 0x0A] @ indent n @ '']'')"
| "render q n (JObject ms) =
     (if ms = [] then ''{}''
      else ''{'' @ [CHR 0x0A]
        @ join_lines (map (\<lambda>(k, v). indent (n + 1) @ q k @ '': '' @ render q (n + 1) v) ms)
        @ [CHR 0x0A] @ indent n @ ''}'')"

definition Marshal :: "(string \<Rightarrow> string) \<Rightarrow> Document \<Rightarrow> string" where
  "Marshal q d = render q 0 (JObject (Document_members d))"

text \<open>
  \<open>same_node p q\<close>: the two nodes are the same Go value, listed in possibly
  different orders. The scalar fields and \<^verbatim>\<open>required\<close> agree, the items are the same
  node, and the two \<^verbatim>\<open>properties\<close> maps (both nil, or both with distinct keys) have
  the same number of keys, each key of the first bound in the second to the same node.
\<close>

fun same_node :: "property \<Rightarrow> property \<Rightarrow> bool" where
  "same_node (Property t f i ps r a) q =
     (Type q = t \<and> Format q = f \<and> Required q = r \<and> AdditionalProperties q = a \<and>
      (case (i, Items q) of
         (None, None) \<Rightarrow> True
       | (Some x, Some y) \<Rightarrow> same_node x y
       | _ \<Rightarrow> False) \<and>
      (case (ps, Properties q) of
         (None, None) \<Rightarrow> True
       | (Some m, Some m') \<Rightarrow>
           distinct (map fst m) \<and> distinct (map fst m') \<and> length m = length m' \<and>
           list_all (\<lambda>(k, c). case map_of m' k of None \<Rightarrow> False | Some c' \<Rightarrow> same_node c c') m
       | _ \<Rightarrow> False))"

section \<open>Selectors and assignments\<close>

text \<open>
  The equations of \<open>read\<close> and \<open>readDeep\<close> apply to every argument; they are
  used where named, not by default.
\<close>

declare read.simps [simp del] readDeep.simps(2) [simp del]

lemma sel_set_Type [simp]:
  "Type (set_Type v p) = v" "Format (set_Type v p) = Format p" "Items (set_Type v p) = Items p"
  "Properties (set_Type v p) = Properties p" "Required (set_Type v p) = Required p"
  "AdditionalProperties (set_Type v p) = AdditionalProperties p"
  by (cases p; simp)+

lemma sel_set_Format [simp]:
  "Type (set_Format v p) = Type p" "Format (set_Format v p) = v"
  "Items (set_Format v p) = Items p" "Properties (set_Format v p) = Properties p"
  "Required (set_Format v p) = Required p"
  "AdditionalProperties (set_Format v p) = AdditionalProperties p"
  by (cases p; simp)+

lemma sel_set_Items [simp]:
  "Type (set_Items v p) = Type p" "Format (set_Items v p) = Format p"
  "Items (set_Items v p) = v" "Properties (set_Items v p) = Properties p"
  "Required (set_Items v p) = Required p"
  "AdditionalProperties (set_Items v p) = AdditionalProperties p"
  by (cases p; simp)+

lemma sel_set_Properties [simp]:
  "Type (set_Properties v p) = Type p" "Format (set_Properties v p) = Format p"
  "Items (set_Properties v p) = Items p" "Properties (set_Properties v p) = v"
  "Required (set_Properties v p) = Required p"
  "AdditionalProperties (set_Properties v p) = AdditionalProperties p"
  by (cases p; simp)+

lemma sel_set_Required [simp]:
  "Type (set_Required v p) = Type p" "Format (set_Required v p) = Format p"
  "Items (set_Required v p) = Items p" "Properties (set_Required v p) = Properties p"
  "Required (set_Required v p) = v"
  "AdditionalProperties (set_Required v p) = AdditionalProperties p"
  by (cases p; simp)+

lemma sel_set_AdditionalProperties [simp]:
  "Type (set_AdditionalProperties v p) = Type p"
  "Format (set_AdditionalProperties v p) = Format p"
  "Items (set_AdditionalProperties v p) = Items p"
  "Properties (set_AdditionalProperties v p) = Properties p"
  "Required (set_AdditionalProperties v p) = Required p"
  "AdditionalProperties (set_AdditionalProperties v p) = v"
  by (cases p; simp)+

lemma sel_empty_property [simp]:
  "Type empty_property = ''''" "Format empty_property = ''''" "Items empty_property = None"
  "Properties empty_property = None" "Required empty_property = []"
  "AdditionalProperties empty_property = False"
  by (simp_all add: empty_property_def)

lemma set_Type_twice [simp]: "set_Type v (set_Type w p) = set_Type v p"
  by (cases p) simp

section \<open>Kind mapper: what \<^verbatim>\<open>getTypeFromMapping\<close> returns\<close>

lemma getTypeFromMapping_unnamed:
  "type_String t \<noteq> ''time.Time'' \<Longrightarrow>
   getTypeFromMapping t =
     (case kindMapping (Kind t) of Some v \<Rightarrow> (v, '''', Kind t) | None \<Rightarrow> ('''', '''', Kind t))"
  by (simp add: getTypeFromMapping_def formatMapping_def)

lemma getTypeFromMapping_named:
  "type_String t = ''time.Time'' \<Longrightarrow>
   getTypeFromMapping t = (''string'', ''date-time'', String)"
  by (simp add: getTypeFromMapping_def formatMapping_def)


lemma kindMapping_nonempty: "kindMapping k = Some v \<Longrightarrow> v \<noteq> ''''"
  by (cases k) auto

lemma kind_of_basic_not_composite [simp]:
  "kind_of_basic b \<noteq> Slice" "kind_of_basic b \<noteq> Map" "kind_of_basic b \<noteq> Struct"
  "kind_of_basic b \<noteq> Ptr" "kind_of_basic b \<noteq> Interface" "kind_of_basic b \<noteq> Invalid"
  by (cases b; simp)+

text \<open>
  The kind tag is \<^verbatim>\<open>reflect.String\<close> when the named-type table answers and the
  type's own kind otherwise. So the branches of \<open>read\<close> and \<open>readDeep\<close> that take a
  type or a value apart always find the constructor they expect: their fallback
  cases, where Go's \<^verbatim>\<open>Elem\<close> would panic, are never taken.
\<close>

lemma kind_tag_constructor:
  assumes "getTypeFromMapping t = (jsType, format, kind)"
  shows "(kind = Slice \<longrightarrow> (\<exists>n e. t = SliceOf n e))
       \<and> (kind = Map \<longrightarrow> (\<exists>n k e. t = MapOf n k e))
       \<and> (kind = Struct \<longrightarrow> (\<exists>n fs. t = StructOf n fs))
       \<and> (kind = Ptr \<longrightarrow> (\<exists>n e. t = PtrTo n e))
       \<and> (kind = Interface \<longrightarrow> (\<exists>n. t = InterfaceType n))"
proof (cases "type_String t = ''time.Time''")
  case True
  with assms show ?thesis by (auto simp: getTypeFromMapping_named)
next
  case False
  with assms have "kind = Kind t"
    by (auto simp: getTypeFromMapping_unnamed split: option.splits)
  then show ?thesis by (cases t) simp_all
qed

lemma kind_tag_value_constructor:
  assumes "getTypeFromMapping (Value_Type v) = (jsType, format, kind)"
  shows "(kind = Slice \<longrightarrow> (\<exists>n e vs. v = VSlice n e vs))
       \<and> (kind = Map \<longrightarrow> (\<exists>n k e es. v = VMap n k e es))
       \<and> (kind = Struct \<longrightarrow> (\<exists>n fvs. v = VStruct n fvs))
       \<and> (kind = Ptr \<longrightarrow> (\<exists>n e x. v = VPtr n e x))
       \<and> (kind = Interface \<longrightarrow> (\<exists>n x. v = VInterface n x))"
  using kind_tag_constructor [OF assms] by (cases v) simp_all


text \<open>
  Claim C7 (as amended). For every type descriptor whose name is not in the named-type
  table: when its kind is pointer or interface, \<^verbatim>\<open>getTypeFromMapping\<close> returns an
  empty type string, an empty format string and the type's kind as the tag; when its
  kind is the raw byte kind \<^verbatim>\<open>reflect.Uint8\<close>, it returns the type string
  \<^verbatim>\<open>integer\<close> (the kind table has an entry for \<^verbatim>\<open>Uint8\<close>), an empty format string
  and the tag \<^verbatim>\<open>Uint8\<close>.
\<close>

theorem classify_pointer_interface_byte:
  "formatMapping (type_String t) = None \<Longrightarrow>
   (Kind t = Ptr \<or> Kind t = Interface \<longrightarrow> getTypeFromMapping t = ('''', '''', Kind t)) \<and>
   (Kind t = Uint8 \<longrightarrow> getTypeFromMapping t = (''integer'', '''', Uint8))"
  by (auto simp add: getTypeFromMapping_def)

theorem classify_pointer_interface_byte_witness:
  "formatMapping (type_String (PtrTo ''*int'' (Basic ''int'' BInt))) = None \<and>
   Kind (PtrTo ''*int'' (Basic ''int'' BInt)) = Ptr \<and>
   getTypeFromMapping (PtrTo ''*int'' (Basic ''int'' BInt)) = ('''', '''', Ptr) \<and>
   formatMapping (type_String (InterfaceType ''interface {}'')) = None \<and>
   Kind (InterfaceType ''interface {}'') = Interface \<and>
   getTypeFromMapping (InterfaceType ''interface {}'') = ('''', '''', Interface)"
proof -
  have h1: "formatMapping (type_String (PtrTo ''*int'' (Basic ''int'' BInt))) = None"
    by (simp add: formatMapping_def)
  have h2: "formatMapping (type_String (InterfaceType ''interface {}'')) = None"
    by (simp add: formatMapping_def)
  show ?thesis
    using h1 h2 classify_pointer_interface_byte [OF h1] classify_pointer_interface_byte [OF h2]
    by simp
qed

text \<open>
  Claim C7 as stated fails at the byte type \<^verbatim>\<open>uint8\<close>: its kind is the raw byte
  kind, its name is not in the named-type table, and the type string returned is
  \<^verbatim>\<open>integer\<close>, not empty.
\<close>

theorem classify_byte_counterexample:
  "Kind (Basic ''uint8'' BUint8) = Uint8 \<and>
   formatMapping (type_String (Basic ''uint8'' BUint8)) = None \<and>
   getTypeFromMapping (Basic ''uint8'' BUint8) = (''integer'', '''', Uint8)"
  by (simp add: getTypeFromMapping_def formatMapping_def)


section \<open>One step of the walk, by kind\<close>

lemma read_named:
  "type_String t = ''time.Time'' \<Longrightarrow>
   read p t opts = set_Format ''date-time'' (set_Type ''string'' p)"
  by (simp add: read.simps getTypeFromMapping_named)

lemma read_Basic:
  "n \<noteq> ''time.Time'' \<Longrightarrow>
   read p (Basic n b) opts =
     (case kindMapping (kind_of_basic b) of Some v \<Rightarrow> set_Type v p | None \<Rightarrow> p)"
  by (simp add: read.simps getTypeFromMapping_unnamed kindMapping_nonempty split: option.splits)

lemma read_Interface: "n \<noteq> ''time.Time'' \<Longrightarrow> read p (InterfaceType n) opts = p"
  by (simp add: read.simps getTypeFromMapping_unnamed)

lemma read_Slice:
  "n \<noteq> ''time.Time'' \<Longrightarrow>
   read p (SliceOf n e) opts = readFromSlice (set_Type ''array'' p) (SliceOf n e)"
  by (simp add: read.simps getTypeFromMapping_unnamed Let_def)

lemma read_Map:
  "n \<noteq> ''time.Time'' \<Longrightarrow>
   read p (MapOf n k e) opts = readFromMap (set_Type ''object'' p) (MapOf n k e)"
  by (simp add: read.simps getTypeFromMapping_unnamed)

lemma read_Ptr: "n \<noteq> ''time.Time'' \<Longrightarrow> read p (PtrTo n e) opts = read p e opts"
  by (simp add: read.simps getTypeFromMapping_unnamed)

lemma read_Struct:
  "n \<noteq> ''time.Time'' \<Longrightarrow>
   read p (StructOf n fs) opts = readFromStruct (set_Type ''object'' p) (StructOf n fs)"
  by (simp add: read.simps getTypeFromMapping_unnamed)

lemma readDeep_named:
  "type_String (Value_Type v) = ''time.Time'' \<Longrightarrow>
   readDeep p (Some v) opts = set_Format ''date-time'' (set_Type ''string'' p)"
  by (simp add: readDeep.simps getTypeFromMapping_named)

lemma readDeep_Basic:
  "n \<noteq> ''time.Time'' \<Longrightarrow>
   readDeep p (Some (VBasic n b c)) opts =
     (case kindMapping (kind_of_basic b) of Some v \<Rightarrow> set_Type v p | None \<Rightarrow> p)"
  by (simp add: readDeep.simps getTypeFromMapping_unnamed kindMapping_nonempty
        split: option.splits)

lemma readDeep_Interface:
  "n \<noteq> ''time.Time'' \<Longrightarrow> readDeep p (Some (VInterface n x)) opts = readDeep p x opts"
  by (simp add: readDeep.simps getTypeFromMapping_unnamed)

lemma readDeep_Slice:
  "n \<noteq> ''time.Time'' \<Longrightarrow>
   readDeep p (Some (VSlice n e vs)) opts =
     readFromSliceDeep (set_Type ''array'' p) (VSlice n e vs)"
  by (simp add: readDeep.simps getTypeFromMapping_unnamed Let_def)

lemma readDeep_Map:
  "n \<noteq> ''time.Time'' \<Longrightarrow>
   readDeep p (Some (VMap n k e es)) opts =
     readFromMapDeep (set_Type ''object'' p) (VMap n k e es)"
  by (simp add: readDeep.simps getTypeFromMapping_unnamed Let_def)

lemma readDeep_Ptr:
  "n \<noteq> ''time.Time'' \<Longrightarrow> readDeep p (Some (VPtr n e x)) opts = readDeep p x opts"
  by (simp add: readDeep.simps getTypeFromMapping_unnamed)

lemma readDeep_Struct:
  "n \<noteq> ''time.Time'' \<Longrightarrow>
   readDeep p (Some (VStruct n fvs)) opts =
     readFromStructDeep (set_Type ''object'' p) (VStruct n fvs)"
  by (simp add: readDeep.simps getTypeFromMapping_unnamed Let_def)


section \<open>Maps and byte slices\<close>

text \<open>
  Claim C1. For an empty map with string keys and \<^verbatim>\<open>int\<close> values (whatever the map
  type and the two element types are called, short of \<^verbatim>\<open>time.Time\<close>), shallow
  inference assigns \<^verbatim>\<open>properties\<close> the single entry \<^verbatim>\<open>.*\<close> whose node has type
  \<^verbatim>\<open>integer\<close>, besides the type \<^verbatim>\<open>object\<close>; deep inference on the empty map value
  only assigns the type \<^verbatim>\<open>object\<close>: \<^verbatim>\<open>properties\<close> stays as it was, unset on a new
  node, and no other field records the value type.
\<close>

theorem empty_map_shallow_wildcard_deep_unset:
  assumes "n \<noteq> ''time.Time''" and "en \<noteq> ''time.Time''"
  shows "read p (MapOf n (Basic kn BString) (Basic en BInt)) opts =
           set_Properties (Some [(''.*'', Property ''integer'' '''' None None [] False)])
             (set_Type ''object'' p)
         \<and> Properties (read empty_property (MapOf n (Basic kn BString) (Basic en BInt)) opts) =
             Some [(''.*'', Property ''integer'' '''' None None [] False)]
         \<and> readDeep p (Some (VMap n (Basic kn BString) (Basic en BInt) [])) opts =
             set_Type ''object'' p
         \<and> Properties (readDeep empty_property
               (Some (VMap n (Basic kn BString) (Basic en BInt) [])) opts) = None"
  using assms
  by (simp add: read_Map readDeep_Map getTypeFromMapping_unnamed readFromMap_def)

theorem empty_map_shallow_wildcard_deep_unset_witness:
  "read empty_property
     (MapOf ''map[string]int'' (Basic ''string'' BString) (Basic ''int'' BInt)) '''' =
     Property ''object'' '''' None
       (Some [(''.*'', Property ''integer'' '''' None None [] False)]) [] False
   \<and> readDeep empty_property
       (Some (VMap ''map[string]int'' (Basic ''string'' BString) (Basic ''int'' BInt) [])) '''' =
     Property ''object'' '''' None None [] False"
proof -
  have h1: "''map[string]int'' \<noteq> ''time.Time''" by simp
  have h2: "''int'' \<noteq> ''time.Time''" by simp
  show ?thesis
    using empty_map_shallow_wildcard_deep_unset
      [OF h1 h2, of empty_property "''string''" "''''"]
    by (simp add: empty_property_def)
qed

text \<open>
  Claim C8. For every slice of raw bytes (element type of kind \<^verbatim>\<open>Uint8\<close>, every
  element a byte of that type; neither type called \<^verbatim>\<open>time.Time\<close>), inference
  assigns the type \<^verbatim>\<open>string\<close> and nothing else, so \<^verbatim>\<open>items\<close> stays unset: in
  shallow mode from the declared element kind, in deep mode for the empty and for the
  non-empty slice.
\<close>

theorem byte_slice_is_string:
  assumes "n \<noteq> ''time.Time''" and "en \<noteq> ''time.Time''"
    and "\<forall>v \<in> set vs. \<exists>c. v = VBasic en BUint8 c"
  shows "read p (SliceOf n (Basic en BUint8)) opts = set_Type ''string'' p
       \<and> readDeep p (Some (VSlice n (Basic en BUint8) vs)) opts = set_Type ''string'' p
       \<and> readDeep p (Some (VSlice n (Basic en BUint8) [])) opts = set_Type ''string'' p
       \<and> Items (set_Type ''string'' empty_property) = None"
proof (cases vs)
  case Nil
  then show ?thesis
    using assms by (simp add: read_Slice readDeep_Slice getTypeFromMapping_unnamed)
next
  case (Cons v0 vs')
  with assms(3) obtain c where "v0 = VBasic en BUint8 c" by auto
  with Cons show ?thesis
    using assms by (simp add: read_Slice readDeep_Slice getTypeFromMapping_unnamed)
qed

theorem byte_slice_is_string_witness:
  "read empty_property (SliceOf ''[]uint8'' (Basic ''uint8'' BUint8)) '''' =
     Property ''string'' '''' None None [] False
   \<and> readDeep empty_property
       (Some (VSlice ''[]uint8'' (Basic ''uint8'' BUint8)
          [VBasic ''uint8'' BUint8 '''', VBasic ''uint8'' BUint8 ''''])) '''' =
     Property ''string'' '''' None None [] False
   \<and> readDeep empty_property
       (Some (VSlice ''[]uint8'' (Basic ''uint8'' BUint8) [])) '''' =
     Property ''string'' '''' None None [] False"
proof -
  have h1: "''[]uint8'' \<noteq> ''time.Time''" by simp
  have h2: "''uint8'' \<noteq> ''time.Time''" by simp
  have h3: "\<forall>v \<in> set [VBasic ''uint8'' BUint8 '''', VBasic ''uint8'' BUint8 ''''].
              \<exists>c. v = VBasic ''uint8'' BUint8 c"
    by simp
  show ?thesis
    using byte_slice_is_string [OF h1 h2 h3, of empty_property "''''"]
    by (simp add: empty_property_def)
qed

section \<open>Pointers\<close>

text \<open>
  Claim C4 (as amended). For every type \<open>t\<close>, and so for every struct type, the
  pointer type \<^verbatim>\<open>*t\<close> (any pointer type not called \<^verbatim>\<open>time.Time\<close>) is inferred in
  shallow mode exactly as \<open>t\<close> itself, from the same node and with the same tag
  options; in deep mode a pointer that is not nil is inferred exactly as the value it
  points to. No wrapper is added in either case. A nil pointer has no value to
  unwrap: deep inference assigns it the type \<^verbatim>\<open>null\<close> and nothing else.
\<close>

theorem pointer_unwrapped:
  assumes "pn \<noteq> ''time.Time''"
  shows "read p (PtrTo pn t) opts = read p t opts
       \<and> readDeep p (Some (VPtr pn t (Some v))) opts = readDeep p (Some v) opts
       \<and> readDeep p (Some (VPtr pn t None)) opts = set_Type ''null'' p"
proof -
  have g: "getTypeFromMapping (PtrTo pn t) = ('''', '''', Ptr)"
    using assms by (simp add: getTypeFromMapping_unnamed)
  have "read p (PtrTo pn t) opts = read p t opts"
    by (subst read.simps) (simp add: g)
  moreover have "readDeep p (Some (VPtr pn t x)) opts = readDeep p x opts" for x
    by (subst readDeep.simps) (simp add: g)
  ultimately show ?thesis by simp
qed

theorem pointer_unwrapped_witness:
  "read empty_property
     (PtrTo ''*main.T'' (StructOf ''main.T'' [StructField ''A'' '''' False (Basic ''bool'' BBool)]))
     '''' =
   read empty_property
     (StructOf ''main.T'' [StructField ''A'' '''' False (Basic ''bool'' BBool)]) ''''
   \<and> readDeep empty_property
       (Some (VPtr ''*main.T''
          (StructOf ''main.T'' [StructField ''A'' '''' False (Basic ''bool'' BBool)])
          (Some (VStruct ''main.T''
             [(StructField ''A'' '''' False (Basic ''bool'' BBool), VBasic ''bool'' BBool '''')]))))
       '''' =
     readDeep empty_property
       (Some (VStruct ''main.T''
          [(StructField ''A'' '''' False (Basic ''bool'' BBool), VBasic ''bool'' BBool '''')]))
       ''''"
proof -
  have h: "''*main.T'' \<noteq> ''time.Time''" by simp
  show ?thesis
    using pointer_unwrapped [OF h] by simp
qed

text \<open>
  Claim C4 as stated fails in deep mode at a nil pointer to a struct: its node has the
  type \<^verbatim>\<open>null\<close> and no properties, while a value of the struct has the type
  \<^verbatim>\<open>object\<close>, the property \<^verbatim>\<open>A\<close> and the required name \<^verbatim>\<open>A\<close>.
\<close>

theorem nil_pointer_deep_counterexample:
  "readDeep empty_property
     (Some (VPtr ''*main.T''
        (StructOf ''main.T'' [StructField ''A'' '''' False (Basic ''bool'' BBool)]) None)) '''' =
     Property ''null'' '''' None None [] False
   \<and> readDeep empty_property
       (Some (VStruct ''main.T''
          [(StructField ''A'' '''' False (Basic ''bool'' BBool), VBasic ''bool'' BBool '''')]))
       '''' =
     Property ''object'' '''' None
       (Some [(''A'', Property ''boolean'' '''' None None [] False)]) [''A''] False"
  by (simp add: readDeep.simps getTypeFromMapping_def formatMapping_def empty_property_def
        parseTag_def Contains_def Let_def)

section \<open>The nil top-level value\<close>

text \<open>
  Claim C6, at the input where the code departs from it: \<^verbatim>\<open>Read(nil)\<close> on a new
  Document panics, since \<^verbatim>\<open>reflect.ValueOf(nil)\<close> is the zero Value and
  \<^verbatim>\<open>Type()\<close> is called on it without a test; \<^verbatim>\<open>ReadDeep(nil)\<close> on the same
  Document tests \<^verbatim>\<open>IsValid()\<close> first and returns the node of type \<^verbatim>\<open>null\<close>.
  On every other input of this embedding both entry points return: \<open>Read\<close> a
  Document for every value that is not nil, \<open>ReadDeep\<close> for every value, by its
  type.
\<close>

theorem Read_nil_panics:
  "Read (NewDocument '''') None = Inl Type_on_zero_Value
   \<and> ReadDeep (NewDocument '''') None =
       \<lparr>Schema = defaultSchema, property = Property ''null'' '''' None None [] False\<rparr>
   \<and> (\<forall>d v. \<exists>d'. Read d (Some v) = Inr d')"
  by (simp add: Read_def ReadDeep_def NewDocument_def setDefaultSchema_def empty_property_def
        Let_def)

section \<open>Map keys in deep mode\<close>

lemma mapKeyToString_placeholder:
  assumes "Value_Type key = k" and "Kind k \<noteq> String" and "Kind k \<noteq> Interface"
  shows "mapKeyToString (Some key) = ''<'' @ type_String k @ '' Value>''"
proof (cases key)
  case (VBasic n b c)
  with assms show ?thesis by (cases b) auto
qed (use assms in auto)

lemma entries_collapse:
  assumes "\<forall>(key, val) \<in> set es. mapKeyToString (Some key) = nm" and "es \<noteq> []"
  shows "readFromMapDeep_entries props es =
         AList.update nm (readDeep empty_property (Some (snd (last es))) '''') props"
  using assms
proof (induction es arbitrary: props)
  case Nil
  then show ?case by simp
next
  case (Cons a es)
  obtain key val where a: "a = (key, val)" by (cases a)
  show ?case
  proof (cases "es = []")
    case True
    with Cons.prems a show ?thesis by simp
  next
    case False
    with Cons a show ?thesis by simp
  qed
qed

text \<open>
  Claim C10 (as amended). In deep mode, for every non-empty map whose key type is of a
  kind other than string and interface (the keys being values of that type),
  \<^verbatim>\<open>mapKeyToString\<close> returns for every key the placeholder \<^verbatim>\<open><T Value>\<close>, where
  \<open>T\<close> is the printed name of the key type: it depends on the type, not on the key's
  value. So all entries collapse to this one property name and \<^verbatim>\<open>properties\<close> has
  exactly one entry, holding the node of the entry iterated last.
\<close>

theorem non_string_keys_collapse:
  assumes "n \<noteq> ''time.Time''" and "es \<noteq> []"
    and "\<forall>(key, val) \<in> set es. Value_Type key = k"
    and "Kind k \<noteq> String" and "Kind k \<noteq> Interface"
  shows "(\<forall>(key, val) \<in> set es. mapKeyToString (Some key) = ''<'' @ type_String k @ '' Value>'')
       \<and> Properties (readDeep p (Some (VMap n k e es)) opts) =
           Some [(''<'' @ type_String k @ '' Value>'',
                  readDeep empty_property (Some (snd (last es))) '''')]"
proof -
  have keys:
    "\<forall>(key, val) \<in> set es. mapKeyToString (Some key) = ''<'' @ type_String k @ '' Value>''"
    using assms(3-5) by (auto simp: mapKeyToString_placeholder)
  have "readFromMapDeep_entries [] es =
        [(''<'' @ type_String k @ '' Value>'',
          readDeep empty_property (Some (snd (last es))) '''')]"
    using entries_collapse [OF keys assms(2), of "[]"] by simp
  then show ?thesis
    using keys assms(1) by (simp add: readDeep_Map)
qed

theorem non_string_keys_collapse_witness:
  "Properties (readDeep empty_property
     (Some (VMap ''map[int]string'' (Basic ''int'' BInt) (Basic ''string'' BString)
        [(VBasic ''int'' BInt '''', VBasic ''string'' BString ''a''),
         (VBasic ''int'' BInt '''', VBasic ''string'' BString ''b'')])) '''') =
   Some [(''<int Value>'', Property ''string'' '''' None None [] False)]"
proof -
  have h1: "''map[int]string'' \<noteq> ''time.Time''" by simp
  have h2: "[(VBasic ''int'' BInt '''', VBasic ''string'' BString ''a''),
             (VBasic ''int'' BInt '''', VBasic ''string'' BString ''b'')] \<noteq> []" by simp
  have h3: "\<forall>(key, val) \<in> set [(VBasic ''int'' BInt '''', VBasic ''string'' BString ''a''),
             (VBasic ''int'' BInt '''', VBasic ''string'' BString ''b'')].
            Value_Type key = Basic ''int'' BInt" by simp
  have h4: "Kind (Basic ''int'' BInt) \<noteq> String" by simp
  have h5: "Kind (Basic ''int'' BInt) \<noteq> Interface" by simp
  show ?thesis
    using non_string_keys_collapse [OF h1 h2 h3 h4 h5, of empty_property "Basic ''string'' BString" "''''"]
    by (simp add: readDeep_Basic empty_property_def)
qed

text \<open>
  Claim C10 as stated fails at a map with keys of interface type: the keys \<open>1\<close> and
  \<open>2.5\<close> wrap an \<^verbatim>\<open>int\<close> and a \<^verbatim>\<open>float64\<close>, neither is a string, and
  \<^verbatim>\<open>properties\<close> has two entries. Nor is the placeholder a function of the kind: two
  keys of kind \<^verbatim>\<open>Int\<close> of differently named types get different names.
\<close>

theorem interface_keys_counterexample:
  "Properties (readDeep empty_property
     (Some (VMap ''map[interface {}]int'' (InterfaceType ''interface {}'') (Basic ''int'' BInt)
        [(VInterface ''interface {}'' (Some (VBasic ''int'' BInt '''')), VBasic ''int'' BInt ''''),
         (VInterface ''interface {}'' (Some (VBasic ''float64'' BFloat64 '''')),
          VBasic ''int'' BInt '''')]))
     '''') =
   Some [(''<int Value>'', Property ''integer'' '''' None None [] False),
         (''<float64 Value>'', Property ''integer'' '''' None None [] False)]
   \<and> mapKeyToString (Some (VBasic ''int'' BInt '''')) = ''<int Value>''
   \<and> mapKeyToString (Some (VBasic ''main.MyInt'' BInt '''')) = ''<main.MyInt Value>''"
  by (simp add: readDeep.simps getTypeFromMapping_def formatMapping_def empty_property_def)


section \<open>The field loops\<close>

text \<open>
  One pass of the loop of \<^verbatim>\<open>readFromStruct\<close>, and of \<^verbatim>\<open>readFromStructDeep\<close>, in
  terms of the member's resolved name, options and node; then what the whole loop
  leaves in \<^verbatim>\<open>p.Required\<close> and under which keys of \<^verbatim>\<open>p.Properties\<close>.
\<close>

lemma foldl_update_keys:
  "fst ` set (foldl (\<lambda>d (name, property). AList.update name property d) dst al)
     = fst ` set dst \<union> fst ` set al"
proof (induction al arbitrary: dst)
  case Nil
  then show ?case by simp
next
  case (Cons a al)
  obtain k v where a: "a = (k, v)" by (cases a)
  show ?case
    unfolding a foldl_Cons prod.case Cons.IH dom_update by auto
qed

lemma range_assign_keys:
  "fst ` set (range_assign dst m) = fst ` set dst \<union> (case m of None \<Rightarrow> {} | Some al \<Rightarrow> fst ` set al)"
  by (cases m) (simp_all add: range_assign_def foldl_update_keys)

lemma range_assign_other:
  assumes "k \<notin> (case m of None \<Rightarrow> {} | Some al \<Rightarrow> fst ` set al)"
  shows "map_of (range_assign dst m) k = map_of dst k"
proof (cases m)
  case None
  then show ?thesis by (simp add: range_assign_def)
next
  case (Some al)
  have "k \<notin> fst ` set al \<Longrightarrow>
        map_of (foldl (\<lambda>d (name, property). AList.update name property d) dst al) k = map_of dst k"
    by (induction al arbitrary: dst) (auto simp: update_conv')
  with Some assms show ?thesis by (simp add: range_assign_def)
qed

lemma fields_step:
  "readFromStruct_fields props req (f # fs) =
     (if resolved_name f = ''-'' then readFromStruct_fields props req fs
      else if field_Anonymous f then
        readFromStruct_fields (range_assign props (Properties (member_node f)))
          (req @ Required (member_node f)) fs
      else
        readFromStruct_fields (AList.update (resolved_name f) (member_node f) props)
          (if Contains (field_options f) ''omitempty'' then req else req @ [resolved_name f]) fs)"
  by (cases f)
     (simp add: resolved_name_def field_options_def member_node_def Let_def split: prod.splits)

lemma fields_required:
  "snd (readFromStruct_fields props req fs) =
     req @ concat (map (\<lambda>f. member_required f (member_node f)) fs)"
  by (induction fs arbitrary: props req)
     (simp_all add: fields_step member_required_def del: readFromStruct_fields.simps(2))

lemma fields_keys:
  "fst ` set (fst (readFromStruct_fields props req fs)) =
     fst ` set props \<union> (\<Union>f \<in> set fs. set (member_keys f (member_node f)))"
  by (induction fs arbitrary: props req)
     (auto simp add: fields_step member_keys_def range_assign_keys dom_update property_names_def
        simp del: readFromStruct_fields.simps(2) split: option.splits)

lemma fields_props_any_req:
  "fst (readFromStruct_fields props req fs) = fst (readFromStruct_fields props req' fs)"
proof (induction fs arbitrary: props req req')
  case Nil
  then show ?case by simp
next
  case (Cons f fs)
  show ?case
    unfolding fields_step using Cons.IH by (simp split: if_splits)
qed

lemma fields_untouched:
  assumes "\<forall>f \<in> set fs. k \<notin> set (member_keys f (member_node f))"
  shows "map_of (fst (readFromStruct_fields props req fs)) k = map_of props k"
  using assms
proof (induction fs arbitrary: props req)
  case Nil
  then show ?case by simp
next
  case (Cons f fs)
  from Cons.prems have here: "k \<notin> set (member_keys f (member_node f))"
    and rest: "\<forall>g \<in> set fs. k \<notin> set (member_keys g (member_node g))" by simp_all
  show ?case
  proof (cases "resolved_name f = ''-''")
    case True
    then show ?thesis using Cons.IH [OF rest] by (simp add: fields_step del: readFromStruct_fields.simps(2))
  next
    case False
    show ?thesis
    proof (cases "field_Anonymous f")
      case True
      with False here have "k \<notin> (case Properties (member_node f) of None \<Rightarrow> {} | Some al \<Rightarrow> fst ` set al)"
        by (auto simp: member_keys_def property_names_def split: option.splits)
      then show ?thesis
        using False True Cons.IH [OF rest]
        by (simp add: fields_step range_assign_other del: readFromStruct_fields.simps(2))
    next
      case plain: False
      with False here have "k \<noteq> resolved_name f" by (auto simp: member_keys_def)
      then show ?thesis
        using False plain Cons.IH [OF rest]
        by (simp add: fields_step update_conv' del: readFromStruct_fields.simps(2))
    qed
  qed
qed

lemma fields_append:
  "readFromStruct_fields props req (pre @ post) =
     (case readFromStruct_fields props req pre of (props', req') \<Rightarrow>
        readFromStruct_fields props' req' post)"
proof (induction pre arbitrary: props req)
  case Nil
  then show ?case by simp
next
  case (Cons f pre)
  show ?case
    unfolding append_Cons fields_step using Cons.IH by simp
qed

lemma fields_member_stored:
  assumes "fs = pre @ f # post" and "resolved_name f \<noteq> ''-''" and "\<not> field_Anonymous f"
    and "\<forall>g \<in> set post. resolved_name f \<notin> set (member_keys g (member_node g))"
  shows "map_of (fst (readFromStruct_fields props req fs)) (resolved_name f) = Some (member_node f)"
proof -
  obtain props1 req1 where pre: "readFromStruct_fields props req pre = (props1, req1)"
    by (cases "readFromStruct_fields props req pre")
  have "readFromStruct_fields props req fs =
        readFromStruct_fields (AList.update (resolved_name f) (member_node f) props1)
          (if Contains (field_options f) ''omitempty'' then req1 else req1 @ [resolved_name f]) post"
    unfolding assms(1) fields_append pre using assms(2,3)
    by (simp add: fields_step del: readFromStruct_fields.simps(2))
  then show ?thesis
    using fields_untouched [OF assms(4)] by (simp add: update_conv')
qed

lemma fields_deep_step:
  "readFromStructDeep_fields props req (fv # fvs) =
     (if resolved_name (fst fv) = ''-'' then readFromStructDeep_fields props req fvs
      else if field_Anonymous (fst fv) then
        readFromStructDeep_fields (range_assign props (Properties (member_node_deep fv)))
          (req @ Required (member_node_deep fv)) fvs
      else
        readFromStructDeep_fields
          (AList.update (resolved_name (fst fv)) (member_node_deep fv) props)
          (if Contains (field_options (fst fv)) ''omitempty'' then req
           else req @ [resolved_name (fst fv)]) fvs)"
proof -
  obtain f v where fv: "fv = (f, v)" by (cases fv)
  show ?thesis
    unfolding fv
    by (cases f)
       (simp add: resolved_name_def field_options_def member_node_deep_def Let_def
          split: prod.splits)
qed

lemma fields_deep_required:
  "snd (readFromStructDeep_fields props req fvs) =
     req @ concat (map (\<lambda>fv. member_required (fst fv) (member_node_deep fv)) fvs)"
  by (induction fvs arbitrary: props req)
     (simp_all add: fields_deep_step member_required_def del: readFromStructDeep_fields.simps(2))

lemma fields_deep_keys:
  "fst ` set (fst (readFromStructDeep_fields props req fvs)) =
     fst ` set props \<union> (\<Union>fv \<in> set fvs. set (member_keys (fst fv) (member_node_deep fv)))"
proof (induction fvs arbitrary: props req)
  case Nil
  then show ?case by simp
next
  case (Cons fv fvs)
  show ?case
    unfolding fields_deep_step
    by (simp add: Cons.IH member_keys_def range_assign_keys dom_update property_names_def
          split: option.splits) blast
qed

lemma fields_deep_props_any_req:
  "fst (readFromStructDeep_fields props req fvs) = fst (readFromStructDeep_fields props req' fvs)"
proof (induction fvs arbitrary: props req req')
  case Nil
  then show ?case by simp
next
  case (Cons fv fvs)
  show ?case
    unfolding fields_deep_step using Cons.IH by (simp split: if_splits)
qed


text \<open>The fields of the node after \<^verbatim>\<open>readFromStruct\<close> and \<^verbatim>\<open>readFromStructDeep\<close>.\<close>

lemma readFromStruct_fields_of:
  "Type (readFromStruct p (StructOf n fs)) = ''object''"
  "Format (readFromStruct p (StructOf n fs)) = Format p"
  "Items (readFromStruct p (StructOf n fs)) = Items p"
  "Properties (readFromStruct p (StructOf n fs)) = Some (fst (readFromStruct_fields [] [] fs))"
  "Required (readFromStruct p (StructOf n fs)) =
     Required p @ concat (map (\<lambda>f. member_required f (member_node f)) fs)"
  "AdditionalProperties (readFromStruct p (StructOf n fs)) = False"
  using fields_required [of "[]" "Required p" fs] fields_props_any_req [of "[]" "Required p" fs "[]"]
  by (auto split: prod.splits)

lemma readFromStructDeep_fields_of:
  "Type (readFromStructDeep p (VStruct n fvs)) = ''object''"
  "Format (readFromStructDeep p (VStruct n fvs)) = Format p"
  "Items (readFromStructDeep p (VStruct n fvs)) = Items p"
  "Properties (readFromStructDeep p (VStruct n fvs)) =
     Some (fst (readFromStructDeep_fields [] [] fvs))"
  "Required (readFromStructDeep p (VStruct n fvs)) =
     Required p @ concat (map (\<lambda>fv. member_required (fst fv) (member_node_deep fv)) fvs)"
  "AdditionalProperties (readFromStructDeep p (VStruct n fvs)) = False"
  using fields_deep_required [of "[]" "Required p" fvs]
    fields_deep_props_any_req [of "[]" "Required p" fvs "[]"]
  by (auto split: prod.splits)

text \<open>
  The keys of a map stay distinct under assignment, so the association lists that the
  walk builds have distinct keys; a spliced entry and a stored member are found under
  their key until a later member assigns it.
\<close>

lemma foldl_update_distinct:
  "distinct (map fst dst) \<Longrightarrow>
   distinct (map fst (foldl (\<lambda>d (name, property). AList.update name property d) dst al))"
proof (induction al arbitrary: dst)
  case Nil
  then show ?case by simp
next
  case (Cons a al)
  obtain k v where a: "a = (k, v)" by (cases a)
  show ?case
    unfolding a foldl_Cons prod.case
    by (rule Cons.IH) (simp add: distinct_update Cons.prems)
qed

lemma range_assign_distinct:
  "distinct (map fst dst) \<Longrightarrow> distinct (map fst (range_assign dst m))"
  by (cases m) (simp_all add: range_assign_def foldl_update_distinct)

lemma foldl_update_map_of:
  "distinct (map fst al) \<Longrightarrow>
   map_of (foldl (\<lambda>d (name, property). AList.update name property d) dst al) k =
     (case map_of al k of Some v \<Rightarrow> Some v | None \<Rightarrow> map_of dst k)"
proof (induction al arbitrary: dst)
  case Nil
  then show ?case by simp
next
  case (Cons a al)
  obtain k' v where a: "a = (k', v)" by (cases a)
  from Cons.prems a have d: "distinct (map fst al)" and notin: "k' \<notin> fst ` set al" by auto
  from notin have none: "map_of al k' = None" by (simp add: map_of_eq_None_iff)
  show ?case
    unfolding a foldl_Cons prod.case Cons.IH [OF d]
    using none by (auto simp: update_conv' split: option.splits)
qed

lemma range_assign_map_of:
  "distinct (map fst al) \<Longrightarrow>
   map_of (range_assign dst (Some al)) k =
     (case map_of al k of Some v \<Rightarrow> Some v | None \<Rightarrow> map_of dst k)"
  by (simp add: range_assign_def foldl_update_map_of)

lemma fields_distinct:
  "distinct (map fst props) \<Longrightarrow> distinct (map fst (fst (readFromStruct_fields props req fs)))"
proof (induction fs arbitrary: props req)
  case Nil
  then show ?case by simp
next
  case (Cons f fs)
  show ?case
    unfolding fields_step
    by (auto intro!: Cons.IH simp: range_assign_distinct distinct_update Cons.prems)
qed

lemma fields_deep_distinct:
  "distinct (map fst props) \<Longrightarrow>
   distinct (map fst (fst (readFromStructDeep_fields props req fvs)))"
proof (induction fvs arbitrary: props req)
  case Nil
  then show ?case by simp
next
  case (Cons fv fvs)
  show ?case
    unfolding fields_deep_step
    by (auto intro!: Cons.IH simp: range_assign_distinct distinct_update Cons.prems)
qed

lemma entries_distinct:
  "distinct (map fst props) \<Longrightarrow> distinct (map fst (readFromMapDeep_entries props es))"
proof (induction es arbitrary: props)
  case Nil
  then show ?case by simp
next
  case (Cons a es)
  obtain key val where a: "a = (key, val)" by (cases a)
  show ?case
    unfolding a readFromMapDeep_entries.simps
    by (rule Cons.IH) (simp add: distinct_update Cons.prems)
qed

lemma read_fresh_distinct: "distinct (property_names (read empty_property t opts))"
proof (induction "size t" arbitrary: t rule: less_induct)
  case less
  show ?case
  proof (cases "type_String t = ''time.Time''")
    case True
    then show ?thesis by (simp add: read_named property_names_def)
  next
    case False
    show ?thesis
    proof (cases t)
      case (Basic n b)
      with False show ?thesis
        by (simp add: read_Basic property_names_def split: option.splits)
    next
      case (InterfaceType n)
      with False show ?thesis by (simp add: read_Interface property_names_def)
    next
      case (SliceOf n e)
      with False show ?thesis
        by (simp add: read_Slice property_names_def split: prod.splits)
    next
      case (MapOf n k e)
      with False show ?thesis
        by (simp add: read_Map property_names_def readFromMap_def split: prod.splits)
    next
      case (PtrTo n e)
      with False less [of e] show ?thesis by (simp add: read_Ptr)
    next
      case (StructOf n fs)
      with False show ?thesis
        using fields_distinct [of "[]" "[]" fs]
        by (simp add: read_Struct property_names_def readFromStruct_fields_of
              del: readFromStruct.simps)
    qed
  qed
qed

lemma readDeep_fresh_distinct: "distinct (property_names (readDeep empty_property x opts))"
proof (induction "size_option size x" arbitrary: x rule: less_induct)
  case less
  show ?case
  proof (cases x)
    case None
    then show ?thesis by (simp add: property_names_def)
  next
    case (Some v)
    show ?thesis
    proof (cases "type_String (Value_Type v) = ''time.Time''")
      case True
      with Some show ?thesis by (simp add: readDeep_named property_names_def)
    next
      case False
      show ?thesis
      proof (cases v)
        case (VBasic n b c)
        with False Some show ?thesis
          by (simp add: readDeep_Basic property_names_def split: option.splits)
      next
        case (VInterface n y)
        with False Some less [of y] show ?thesis by (simp add: readDeep_Interface)
      next
        case (VSlice n e vs)
        with False Some show ?thesis
          by (cases vs) (simp_all add: readDeep_Slice property_names_def split: prod.splits)
      next
        case (VMap n k e es)
        with False Some show ?thesis
          using entries_distinct [of "[]" es]
          by (simp add: readDeep_Map property_names_def Let_def)
      next
        case (VPtr n e y)
        with False Some less [of y] show ?thesis by (simp add: readDeep_Ptr)
      next
        case (VStruct n fvs)
        with False Some show ?thesis
          using fields_deep_distinct [of "[]" "[]" fvs]
          by (simp add: readDeep_Struct property_names_def readFromStructDeep_fields_of
                del: readFromStructDeep.simps)
      qed
    qed
  qed
qed

lemma fields_deep_untouched:
  assumes "\<forall>fv \<in> set fvs. k \<notin> set (member_keys (fst fv) (member_node_deep fv))"
  shows "map_of (fst (readFromStructDeep_fields props req fvs)) k = map_of props k"
  using assms
proof (induction fvs arbitrary: props req)
  case Nil
  then show ?case by simp
next
  case (Cons fv fvs)
  from Cons.prems have here: "k \<notin> set (member_keys (fst fv) (member_node_deep fv))"
    and rest: "\<forall>g \<in> set fvs. k \<notin> set (member_keys (fst g) (member_node_deep g))" by simp_all
  show ?case
  proof (cases "resolved_name (fst fv) = ''-''")
    case True
    then show ?thesis using Cons.IH [OF rest] by (simp add: fields_deep_step)
  next
    case False
    show ?thesis
    proof (cases "field_Anonymous (fst fv)")
      case True
      with False here
      have "k \<notin> (case Properties (member_node_deep fv) of None \<Rightarrow> {} | Some al \<Rightarrow> fst ` set al)"
        by (auto simp: member_keys_def property_names_def split: option.splits)
      then show ?thesis
        using False True Cons.IH [OF rest] by (simp add: fields_deep_step range_assign_other)
    next
      case plain: False
      with False here have "k \<noteq> resolved_name (fst fv)" by (auto simp: member_keys_def)
      then show ?thesis
        using False plain Cons.IH [OF rest] by (simp add: fields_deep_step update_conv')
    qed
  qed
qed

lemma fields_deep_append:
  "readFromStructDeep_fields props req (pre @ post) =
     (case readFromStructDeep_fields props req pre of (props', req') \<Rightarrow>
        readFromStructDeep_fields props' req' post)"
proof (induction pre arbitrary: props req)
  case Nil
  then show ?case by simp
next
  case (Cons fv pre)
  show ?case
    unfolding append_Cons fields_deep_step using Cons.IH by simp
qed

lemma fields_spliced:
  assumes "resolved_name f \<noteq> ''-''" and "field_Anonymous f"
    and "Properties (member_node f) = Some al" and "map_of al k = Some node"
    and "\<forall>g \<in> set post. k \<notin> set (member_keys g (member_node g))"
  shows "map_of (fst (readFromStruct_fields props req (pre @ f # post))) k = Some node"
proof -
  obtain props1 req1 where pre: "readFromStruct_fields props req pre = (props1, req1)"
    by (cases "readFromStruct_fields props req pre")
  have d: "distinct (map fst al)"
    using read_fresh_distinct [of "field_Type f" "field_options f"] assms(3)
    by (simp add: member_node_def property_names_def)
  have "readFromStruct_fields props req (pre @ f # post) =
        readFromStruct_fields (range_assign props1 (Some al)) (req1 @ Required (member_node f)) post"
    unfolding fields_append pre using assms(1-3) by (simp add: fields_step)
  then show ?thesis
    using fields_untouched [OF assms(5)] assms(4) by (simp add: range_assign_map_of [OF d])
qed

lemma fields_deep_spliced:
  assumes "resolved_name (fst fv) \<noteq> ''-''" and "field_Anonymous (fst fv)"
    and "Properties (member_node_deep fv) = Some al" and "map_of al k = Some node"
    and "\<forall>g \<in> set post. k \<notin> set (member_keys (fst g) (member_node_deep g))"
  shows "map_of (fst (readFromStructDeep_fields props req (pre @ fv # post))) k = Some node"
proof -
  obtain props1 req1 where pre: "readFromStructDeep_fields props req pre = (props1, req1)"
    by (cases "readFromStructDeep_fields props req pre")
  have d: "distinct (map fst al)"
    using readDeep_fresh_distinct [of "Some (snd fv)" "field_options (fst fv)"] assms(3)
    by (simp add: member_node_deep_def property_names_def)
  have "readFromStructDeep_fields props req (pre @ fv # post) =
        readFromStructDeep_fields (range_assign props1 (Some al))
          (req1 @ Required (member_node_deep fv)) post"
    unfolding fields_deep_append pre using assms(1-3) by (simp add: fields_deep_step)
  then show ?thesis
    using fields_deep_untouched [OF assms(5)] assms(4) by (simp add: range_assign_map_of [OF d])
qed

lemma struct_node:
  assumes "n \<noteq> ''time.Time''"
  shows "Properties (read p (StructOf n fs) opts) = Some (fst (readFromStruct_fields [] [] fs))"
    and "Required (read p (StructOf n fs) opts) =
           Required p @ concat (map (\<lambda>f. member_required f (member_node f)) fs)"
    and "set (property_names (read p (StructOf n fs) opts)) =
           (\<Union>f \<in> set fs. set (member_keys f (member_node f)))"
  using assms fields_keys [of "[]" "[]" fs]
  by (simp_all add: read_Struct readFromStruct_fields_of property_names_def
        del: readFromStruct.simps)

lemma struct_node_deep:
  assumes "n \<noteq> ''time.Time''"
  shows "Properties (readDeep p (Some (VStruct n fvs)) opts) =
           Some (fst (readFromStructDeep_fields [] [] fvs))"
    and "Required (readDeep p (Some (VStruct n fvs)) opts) =
           Required p @ concat (map (\<lambda>fv. member_required (fst fv) (member_node_deep fv)) fvs)"
    and "set (property_names (readDeep p (Some (VStruct n fvs)) opts)) =
           (\<Union>fv \<in> set fvs. set (member_keys (fst fv) (member_node_deep fv)))"
  using assms fields_deep_keys [of "[]" "[]" fvs]
  by (simp_all add: readDeep_Struct readFromStructDeep_fields_of property_names_def
        del: readFromStructDeep.simps)

section \<open>Struct members\<close>

text \<open>
  Claim C2 (as amended). For every record type (a struct type whose name is not in
  the named-type table), shallow inference stores one child node per member that is
  neither excluded (resolved name \<^verbatim>\<open>-\<close>) nor embedded, under the member's resolved
  name: the name is a key of \<^verbatim>\<open>properties\<close>, and the node found there is the
  member's node unless a later member assigns the same key. It appends that name to
  \<^verbatim>\<open>required\<close> exactly when the member's tag options do not contain
  \<^verbatim>\<open>omitempty\<close>: \<^verbatim>\<open>required\<close> is what it was, followed by the contributions of the
  members in declaration order, and for a record without embedded members these are
  the resolved names of the members that are not excluded and lack \<^verbatim>\<open>omitempty\<close>.
  The witness is the record with the fields \<^verbatim>\<open>A bool\<close> and \<^verbatim>\<open>B string\<close>, the
  second tagged \<^verbatim>\<open>,omitempty\<close>: its
  properties are \<^verbatim>\<open>A\<close> of type boolean and \<^verbatim>\<open>B\<close> of type string, and
  \<^verbatim>\<open>required\<close> is \<^verbatim>\<open>[A]\<close>.
\<close>

theorem plain_members_stored_and_required:
  assumes "n \<noteq> ''time.Time''"
  shows "(\<forall>f \<in> set fs. resolved_name f \<noteq> ''-'' \<and> \<not> field_Anonymous f \<longrightarrow>
            resolved_name f \<in> set (property_names (read p (StructOf n fs) opts)))
       \<and> (\<forall>pre f post.
             fs = pre @ f # post \<and> resolved_name f \<noteq> ''-'' \<and> \<not> field_Anonymous f \<and>
             (\<forall>g \<in> set post. resolved_name f \<notin> set (member_keys g (member_node g))) \<longrightarrow>
             (\<exists>m. Properties (read p (StructOf n fs) opts) = Some m \<and>
                  map_of m (resolved_name f) = Some (member_node f)))
       \<and> Required (read p (StructOf n fs) opts) =
             Required p @ concat (map (\<lambda>f. member_required f (member_node f)) fs)
       \<and> (\<forall>f. resolved_name f \<noteq> ''-'' \<and> \<not> field_Anonymous f \<longrightarrow>
             member_required f (member_node f) =
               (if Contains (field_options f) ''omitempty'' then [] else [resolved_name f]))
       \<and> ((\<forall>f \<in> set fs. \<not> field_Anonymous f) \<longrightarrow>
             Required (read p (StructOf n fs) opts) =
               Required p @ map resolved_name
                 (filter (\<lambda>f. resolved_name f \<noteq> ''-'' \<and> \<not> Contains (field_options f) ''omitempty'') fs))"
proof -
  let ?r = "read p (StructOf n fs) opts"
  have keys: "set (property_names ?r) = (\<Union>g \<in> set fs. set (member_keys g (member_node g)))"
    by (rule struct_node(3) [OF assms])
  have a: "resolved_name f \<in> set (property_names ?r)"
    if "f \<in> set fs" "resolved_name f \<noteq> ''-''" "\<not> field_Anonymous f" for f
    unfolding keys using that by (auto simp: member_keys_def)
  have b: "\<exists>m. Properties ?r = Some m \<and> map_of m (resolved_name f) = Some (member_node f)"
    if "fs = pre @ f # post" "resolved_name f \<noteq> ''-''" "\<not> field_Anonymous f"
       "\<forall>g \<in> set post. resolved_name f \<notin> set (member_keys g (member_node g))" for pre f post
    using fields_member_stored [OF that, of "[]" "[]"] by (simp add: struct_node(1) [OF assms])
  have c: "Required ?r = Required p @ concat (map (\<lambda>f. member_required f (member_node f)) fs)"
    by (rule struct_node(2) [OF assms])
  have d: "member_required f (member_node f) =
             (if Contains (field_options f) ''omitempty'' then [] else [resolved_name f])"
    if "resolved_name f \<noteq> ''-''" "\<not> field_Anonymous f" for f
    using that by (simp add: member_required_def)
  have e: "concat (map (\<lambda>f. member_required f (member_node f)) fs) =
           map resolved_name
             (filter (\<lambda>f. resolved_name f \<noteq> ''-'' \<and> \<not> Contains (field_options f) ''omitempty'') fs)"
    if "\<forall>f \<in> set fs. \<not> field_Anonymous f"
    using that by (induction fs) (auto simp: member_required_def)
  show ?thesis
    using a b c d e by (simp only: c) blast
qed

theorem plain_members_stored_and_required_witness:
  "read empty_property
     (StructOf ''main.T''
        [StructField ''A'' '''' False (Basic ''bool'' BBool),
         StructField ''B'' '',omitempty'' False (Basic ''string'' BString)]) '''' =
   Property ''object'' '''' None
     (Some [(''A'', Property ''boolean'' '''' None None [] False),
            (''B'', Property ''string'' '''' None None [] False)])
     [''A''] False"
proof -
  have h: "''main.T'' \<noteq> ''time.Time''" by simp
  show ?thesis
    using plain_members_stored_and_required [OF h, of "[StructField ''A'' '''' False (Basic ''bool'' BBool),
         StructField ''B'' '',omitempty'' False (Basic ''string'' BString)]" empty_property "''''"]
    by (simp add: read_Struct read_Basic parseTag_def Contains_def Let_def empty_property_def)
qed

text \<open>
  Claim C2 as stated fails at an embedded member: in the record \<^verbatim>\<open>T {Base}\<close> with
  \<^verbatim>\<open>Base {Zoo string}\<close> the member \<^verbatim>\<open>Base\<close> is not excluded and its options lack
  \<^verbatim>\<open>omitempty\<close>, yet no node is stored under \<^verbatim>\<open>Base\<close> and \<^verbatim>\<open>Base\<close> is not
  in \<^verbatim>\<open>required\<close>.
\<close>

theorem embedded_member_not_stored_counterexample:
  "read empty_property
     (StructOf ''main.T''
        [StructField ''Base'' '''' True
           (StructOf ''main.Base'' [StructField ''Zoo'' '''' False (Basic ''string'' BString)])])
     '''' =
   Property ''object'' '''' None
     (Some [(''Zoo'', Property ''string'' '''' None None [] False)]) [''Zoo''] False
   \<and> resolved_name (StructField ''Base'' '''' True
        (StructOf ''main.Base'' [StructField ''Zoo'' '''' False (Basic ''string'' BString)])) = ''Base''
   \<and> \<not> Contains (field_options (StructField ''Base'' '''' True
        (StructOf ''main.Base'' [StructField ''Zoo'' '''' False (Basic ''string'' BString)])))
        ''omitempty''"
  by (simp add: read_Struct read_Basic parseTag_def Contains_def Let_def empty_property_def
        resolved_name_def field_options_def range_assign_def)

text \<open>
  Claim C3 (as amended). For every record type (name not in the named-type table)
  and every embedded member \<open>f\<close> of it whose resolved name is not \<^verbatim>\<open>-\<close>, in shallow
  and in deep mode: every property name of the member's node is a key of the parent's
  \<^verbatim>\<open>properties\<close>, and the parent holds under that key the very node the embedded
  node holds, unless a later member assigns the key; the keys of the parent are exactly
  the keys its members contribute (the resolved names of the plain members and the
  property names of the embedded members' nodes), so nothing is stored under the
  embedded member's own name on its account; and the embedded node's required names
  stand in the parent's \<^verbatim>\<open>required\<close>, after the contributions of the members
  before \<open>f\<close> and before those of the members after it.
\<close>

theorem embedded_member_spliced:
  assumes "n \<noteq> ''time.Time''" and "field_Anonymous f" and "resolved_name f \<noteq> ''-''"
  shows "set (property_names (member_node f))
           \<subseteq> set (property_names (read p (StructOf n (pre @ f # post)) opts))
       \<and> (\<forall>al k node.
             Properties (member_node f) = Some al \<and> map_of al k = Some node \<and>
             (\<forall>g \<in> set post. k \<notin> set (member_keys g (member_node g))) \<longrightarrow>
             (\<exists>m. Properties (read p (StructOf n (pre @ f # post)) opts) = Some m \<and>
                  map_of m k = Some node))
       \<and> set (property_names (read p (StructOf n (pre @ f # post)) opts)) =
             (\<Union>g \<in> set (pre @ f # post). set (member_keys g (member_node g)))
       \<and> Required (read p (StructOf n (pre @ f # post)) opts) =
             Required p @ concat (map (\<lambda>g. member_required g (member_node g)) pre)
               @ Required (member_node f)
               @ concat (map (\<lambda>g. member_required g (member_node g)) post)
       \<and> set (property_names (member_node_deep (f, v)))
           \<subseteq> set (property_names (readDeep p (Some (VStruct n (dpre @ (f, v) # dpost))) opts))
       \<and> (\<forall>al k node.
             Properties (member_node_deep (f, v)) = Some al \<and> map_of al k = Some node \<and>
             (\<forall>g \<in> set dpost. k \<notin> set (member_keys (fst g) (member_node_deep g))) \<longrightarrow>
             (\<exists>m. Properties (readDeep p (Some (VStruct n (dpre @ (f, v) # dpost))) opts) = Some m \<and>
                  map_of m k = Some node))
       \<and> set (property_names (readDeep p (Some (VStruct n (dpre @ (f, v) # dpost))) opts)) =
             (\<Union>g \<in> set (dpre @ (f, v) # dpost). set (member_keys (fst g) (member_node_deep g)))
       \<and> Required (readDeep p (Some (VStruct n (dpre @ (f, v) # dpost))) opts) =
             Required p @ concat (map (\<lambda>g. member_required (fst g) (member_node_deep g)) dpre)
               @ Required (member_node_deep (f, v))
               @ concat (map (\<lambda>g. member_required (fst g) (member_node_deep g)) dpost)"
proof -
  let ?fs = "pre @ f # post" and ?fvs = "dpre @ (f, v) # dpost"
  have keys: "set (property_names (read p (StructOf n ?fs) opts)) =
              (\<Union>g \<in> set ?fs. set (member_keys g (member_node g)))"
    by (rule struct_node(3) [OF assms(1)])
  have own: "member_keys f (member_node f) = property_names (member_node f)"
    using assms(2,3) by (simp add: member_keys_def)
  have sub: "set (property_names (member_node f)) \<subseteq> set (property_names (read p (StructOf n ?fs) opts))"
    unfolding keys using own by auto
  have val: "\<exists>m. Properties (read p (StructOf n ?fs) opts) = Some m \<and> map_of m k = Some node"
    if "Properties (member_node f) = Some al" "map_of al k = Some node"
       "\<forall>g \<in> set post. k \<notin> set (member_keys g (member_node g))" for al k node
    using fields_spliced [OF assms(3,2) that, of "[]" "[]" pre]
    by (simp add: struct_node(1) [OF assms(1)])
  have req: "Required (read p (StructOf n ?fs) opts) =
             Required p @ concat (map (\<lambda>g. member_required g (member_node g)) pre)
               @ Required (member_node f)
               @ concat (map (\<lambda>g. member_required g (member_node g)) post)"
    using assms(2,3) by (simp add: struct_node(2) [OF assms(1)] member_required_def)
  have dkeys: "set (property_names (readDeep p (Some (VStruct n ?fvs)) opts)) =
              (\<Union>g \<in> set ?fvs. set (member_keys (fst g) (member_node_deep g)))"
    by (rule struct_node_deep(3) [OF assms(1)])
  have down: "member_keys f (member_node_deep (f, v)) = property_names (member_node_deep (f, v))"
    using assms(2,3) by (simp add: member_keys_def)
  have dsub: "set (property_names (member_node_deep (f, v)))
              \<subseteq> set (property_names (readDeep p (Some (VStruct n ?fvs)) opts))"
    unfolding dkeys using down by auto
  have dval: "\<exists>m. Properties (readDeep p (Some (VStruct n ?fvs)) opts) = Some m \<and> map_of m k = Some node"
    if "Properties (member_node_deep (f, v)) = Some al" "map_of al k = Some node"
       "\<forall>g \<in> set dpost. k \<notin> set (member_keys (fst g) (member_node_deep g))" for al k node
    using fields_deep_spliced [of "(f, v)" al k node dpost "[]" "[]" dpre] assms(2,3) that
    by (simp add: struct_node_deep(1) [OF assms(1)])
  have dreq: "Required (readDeep p (Some (VStruct n ?fvs)) opts) =
             Required p @ concat (map (\<lambda>g. member_required (fst g) (member_node_deep g)) dpre)
               @ Required (member_node_deep (f, v))
               @ concat (map (\<lambda>g. member_required (fst g) (member_node_deep g)) dpost)"
    using assms(2,3) by (simp add: struct_node_deep(2) [OF assms(1)] member_required_def)
  show ?thesis
    using sub val keys req dsub dval dkeys dreq by blast
qed

theorem embedded_member_spliced_witness:
  "read empty_property
     (StructOf ''main.T''
        [StructField ''Foo'' ''foo'' False (Basic ''bool'' BBool),
         StructField ''EmbeddedType'' '''' True
           (StructOf ''main.EmbeddedType''
              [StructField ''Zoo'' '''' False (Basic ''string'' BString)]),
         StructField ''Qux'' '''' False (Basic ''int8'' BInt8)])
     '''' =
   Property ''object'' '''' None
     (Some [(''foo'', Property ''boolean'' '''' None None [] False),
            (''Zoo'', Property ''string'' '''' None None [] False),
            (''Qux'', Property ''integer'' '''' None None [] False)])
     [''foo'', ''Zoo'', ''Qux''] False"
proof -
  have h1: "''main.T'' \<noteq> ''time.Time''" by simp
  have h2: "field_Anonymous (StructField ''EmbeddedType'' '''' True
           (StructOf ''main.EmbeddedType''
              [StructField ''Zoo'' '''' False (Basic ''string'' BString)]))" by simp
  have h3: "resolved_name (StructField ''EmbeddedType'' '''' True
           (StructOf ''main.EmbeddedType''
              [StructField ''Zoo'' '''' False (Basic ''string'' BString)])) \<noteq> ''-''"
    by (simp add: resolved_name_def parseTag_def)
  show ?thesis
    using embedded_member_spliced [OF h1 h2 h3, of empty_property
        "[StructField ''Foo'' ''foo'' False (Basic ''bool'' BBool)]"
        "[StructField ''Qux'' '''' False (Basic ''int8'' BInt8)]" "''''"]
    by (simp add: read_Struct read_Basic parseTag_def Contains_def Let_def empty_property_def
          range_assign_def)
qed

text \<open>
  Claim C3 as stated fails at an embedded member whose tag gives the name \<^verbatim>\<open>-\<close>:
  the loop skips it before it looks at the embedded flag, so the property \<^verbatim>\<open>Zoo\<close>
  of the embedded node is no key of the parent and \<^verbatim>\<open>Zoo\<close> is not in the parent's
  \<^verbatim>\<open>required\<close>.
\<close>

theorem excluded_embedded_member_counterexample:
  "read empty_property
     (StructOf ''main.T''
        [StructField ''Base'' ''-'' True
           (StructOf ''main.Base'' [StructField ''Zoo'' '''' False (Basic ''string'' BString)])])
     '''' =
   Property ''object'' '''' None (Some []) [] False
   \<and> read empty_property
       (StructOf ''main.Base'' [StructField ''Zoo'' '''' False (Basic ''string'' BString)]) '''' =
     Property ''object'' '''' None
       (Some [(''Zoo'', Property ''string'' '''' None None [] False)]) [''Zoo''] False"
  by (simp add: read_Struct read_Basic parseTag_def Contains_def Let_def empty_property_def)

section \<open>Walking on a node that is not empty\<close>

text \<open>
  \<open>read\<close> and \<open>readDeep\<close> assign fields of the node they are given and leave the
  others alone. What they make of any node is what they make of the empty node, laid
  over the node given.
\<close>

lemma read_frame: "overlaid p (read empty_property t opts) (read p t opts)"
proof (induction "size t" arbitrary: t p rule: less_induct)
  case less
  show ?case
  proof (cases "type_String t = ''time.Time''")
    case True
    then show ?thesis by (simp add: read_named overlaid_def)
  next
    case False
    show ?thesis
    proof (cases t)
      case (Basic n b)
      with False show ?thesis
        by (auto simp add: read_Basic overlaid_def kindMapping_nonempty split: option.splits)
    next
      case (InterfaceType n)
      with False show ?thesis by (simp add: read_Interface overlaid_def)
    next
      case (SliceOf n e)
      with False show ?thesis
        by (simp add: read_Slice overlaid_def split: prod.splits)
    next
      case (MapOf n k e)
      with False show ?thesis
        by (simp add: read_Map overlaid_def readFromMap_def split: prod.splits)
    next
      case (PtrTo n e)
      with False less [of e] show ?thesis by (simp add: read_Ptr)
    next
      case (StructOf n fs)
      with False show ?thesis
        by (simp add: read_Struct overlaid_def readFromStruct_fields_of
              del: readFromStruct.simps)
    qed
  qed
qed

lemma readDeep_frame: "overlaid p (readDeep empty_property x opts) (readDeep p x opts)"
proof (induction "size_option size x" arbitrary: x p rule: less_induct)
  case less
  show ?case
  proof (cases x)
    case None
    then show ?thesis by (simp add: overlaid_def)
  next
    case (Some v)
    show ?thesis
    proof (cases "type_String (Value_Type v) = ''time.Time''")
      case True
      with Some show ?thesis by (simp add: readDeep_named overlaid_def)
    next
      case False
      show ?thesis
      proof (cases v)
        case (VBasic n b c)
        with False Some show ?thesis
          by (auto simp add: readDeep_Basic overlaid_def kindMapping_nonempty split: option.splits)
      next
        case (VInterface n y)
        with False Some less [of y] show ?thesis by (simp add: readDeep_Interface)
      next
        case (VSlice n e vs)
        with False Some show ?thesis
          by (cases vs) (simp_all add: readDeep_Slice overlaid_def split: prod.splits)
      next
        case (VMap n k e es)
        with False Some show ?thesis
          by (simp add: readDeep_Map overlaid_def Let_def)
      next
        case (VPtr n e y)
        with False Some less [of y] show ?thesis by (simp add: readDeep_Ptr)
      next
        case (VStruct n fvs)
        with False Some show ?thesis
          by (simp add: readDeep_Struct overlaid_def readFromStructDeep_fields_of
                del: readFromStructDeep.simps)
      qed
    qed
  qed
qed

section \<open>A second call on the same Document\<close>

lemma property_setDefaultSchema [simp]: "property (setDefaultSchema d) = property d"
  by (simp add: setDefaultSchema_def)

text \<open>
  Claim C5 (as amended). For every Document, a further top-level inference call walks
  its input on the root node as the earlier call left it, not on an empty node.
  Against the node \<open>f\<close> that a new Document gets for the same input, the root after
  the call has the type and format of \<open>f\<close> where \<open>f\<close> has them and the earlier ones
  otherwise; the items and properties of \<open>f\<close> where \<open>f\<close> has them and the earlier
  ones otherwise; the earlier required names followed by those of \<open>f\<close>; and
  \<^verbatim>\<open>additionalProperties\<close> set if it is set in \<open>f\<close>, and only if it is set in \<open>f\<close>
  or was set before. The root equals \<open>f\<close> when the root was empty before the call.
  This holds for \<open>Read\<close> (when it returns) and for \<open>ReadDeep\<close>.
\<close>

theorem second_call_overlays_root:
  "(Read d (Some v) = Inr d' \<and> Read (NewDocument s) (Some v) = Inr f \<longrightarrow>
      overlaid (property d) (property f) (property d') \<and>
      (property d = empty_property \<longrightarrow> property d' = property f))
   \<and> overlaid (property d) (property (ReadDeep (NewDocument s) x)) (property (ReadDeep d x))
   \<and> (property d = empty_property \<longrightarrow>
        property (ReadDeep d x) = property (ReadDeep (NewDocument s) x))"
proof -
  have shallow: "overlaid (property d) (property f) (property d')"
    if "Read d (Some v) = Inr d'" "Read (NewDocument s) (Some v) = Inr f"
  proof -
    from that have "property d' = read (property d) (Value_Type v) ''''"
      and "property f = read empty_property (Value_Type v) ''''"
      by (auto simp: Read_def Let_def NewDocument_def setDefaultSchema_def)
    then show ?thesis by (simp add: read_frame)
  qed
  have shallow_fresh: "property d' = property f"
    if "Read d (Some v) = Inr d'" "Read (NewDocument s) (Some v) = Inr f"
       "property d = empty_property"
    using that by (auto simp: Read_def Let_def NewDocument_def setDefaultSchema_def)
  have deep: "overlaid (property d) (property (ReadDeep (NewDocument s) x)) (property (ReadDeep d x))"
    by (simp add: ReadDeep_def Let_def NewDocument_def readDeep_frame)
  have deep_fresh: "property (ReadDeep d x) = property (ReadDeep (NewDocument s) x)"
    if "property d = empty_property"
    using that by (simp add: ReadDeep_def Let_def NewDocument_def)
  show ?thesis
    using shallow shallow_fresh deep deep_fresh by blast
qed

theorem second_call_overlays_root_witness:
  "property (ReadDeep
      \<lparr>Schema = ''http://json-schema.org/schema#'',
       property = Property ''object'' '''' None
         (Some [(''A'', Property ''boolean'' '''' None None [] False)]) [''A''] False\<rparr>
      (Some (VSlice ''[]int'' (Basic ''int'' BInt) []))) =
   Property ''array'' '''' (Some (Property ''integer'' '''' None None [] False))
     (Some [(''A'', Property ''boolean'' '''' None None [] False)]) [''A''] False
   \<and> Read \<lparr>Schema = ''http://json-schema.org/schema#'',
            property = Property ''object'' '''' None
              (Some [(''A'', Property ''boolean'' '''' None None [] False)]) [''A''] False\<rparr>
       (Some (VStruct ''main.U''
          [(StructField ''B'' '''' False (Basic ''string'' BString), VBasic ''string'' BString '''')])) =
     Inr \<lparr>Schema = ''http://json-schema.org/schema#'',
          property = Property ''object'' '''' None
            (Some [(''B'', Property ''string'' '''' None None [] False)]) [''A'', ''B''] False\<rparr>"
proof -
  let ?d = "\<lparr>Schema = ''http://json-schema.org/schema#'',
       property = Property ''object'' '''' None
         (Some [(''A'', Property ''boolean'' '''' None None [] False)]) [''A''] False\<rparr>"
  let ?v = "VStruct ''main.U''
          [(StructField ''B'' '''' False (Basic ''string'' BString), VBasic ''string'' BString '''')]"
  let ?d' = "\<lparr>Schema = ''http://json-schema.org/schema#'',
          property = Property ''object'' '''' None
            (Some [(''B'', Property ''string'' '''' None None [] False)]) [''A'', ''B''] False\<rparr>"
  let ?f = "\<lparr>Schema = ''http://json-schema.org/schema#'',
          property = Property ''object'' '''' None
            (Some [(''B'', Property ''string'' '''' None None [] False)]) [''B''] False\<rparr>"
  have h1: "Read ?d (Some ?v) = Inr ?d'"
    by (simp add: Read_def setDefaultSchema_def Let_def read_Struct read_Basic
          parseTag_def Contains_def empty_property_def)
  have h2: "Read (NewDocument '''') (Some ?v) = Inr ?f"
    by (simp add: Read_def NewDocument_def setDefaultSchema_def defaultSchema_def Let_def
          read_Struct read_Basic parseTag_def Contains_def empty_property_def)
  have "overlaid (property ?d) (property ?f) (property ?d')"
    using second_call_overlays_root [of ?d ?v ?d' "''''" ?f "Some (VSlice ''[]int'' (Basic ''int'' BInt) [])"] h1 h2
    by blast
  moreover have "overlaid (property ?d)
      (property (ReadDeep (NewDocument '''') (Some (VSlice ''[]int'' (Basic ''int'' BInt) []))))
      (property (ReadDeep ?d (Some (VSlice ''[]int'' (Basic ''int'' BInt) []))))"
    using second_call_overlays_root [of ?d ?v ?d' "''''" ?f "Some (VSlice ''[]int'' (Basic ''int'' BInt) [])"]
    by blast
  ultimately show ?thesis
    using h1
    by (simp add: ReadDeep_def setDefaultSchema_def Let_def readDeep_Slice read_Basic
          getTypeFromMapping_unnamed empty_property_def)
qed

text \<open>
  Claim C5 as stated fails on a Document that has read the record \<^verbatim>\<open>T {A bool}\<close>
  and then reads a value of type \<^verbatim>\<open>[]int\<close>: the root still has the property \<^verbatim>\<open>A\<close>
  and the required name \<^verbatim>\<open>A\<close> of the first call, which the node of a new Document
  for \<^verbatim>\<open>[]int\<close> does not have.
\<close>

theorem second_call_leftover_counterexample:
  "Read (NewDocument '''')
     (Some (VStruct ''main.T''
        [(StructField ''A'' '''' False (Basic ''bool'' BBool), VBasic ''bool'' BBool '''')])) =
     Inr \<lparr>Schema = ''http://json-schema.org/schema#'',
          property = Property ''object'' '''' None
            (Some [(''A'', Property ''boolean'' '''' None None [] False)]) [''A''] False\<rparr>
   \<and> Read \<lparr>Schema = ''http://json-schema.org/schema#'',
            property = Property ''object'' '''' None
              (Some [(''A'', Property ''boolean'' '''' None None [] False)]) [''A''] False\<rparr>
       (Some (VSlice ''[]int'' (Basic ''int'' BInt) [])) =
     Inr \<lparr>Schema = ''http://json-schema.org/schema#'',
          property = Property ''array'' ''''
            (Some (Property ''integer'' '''' None None [] False))
            (Some [(''A'', Property ''boolean'' '''' None None [] False)]) [''A''] False\<rparr>
   \<and> Read (NewDocument '''') (Some (VSlice ''[]int'' (Basic ''int'' BInt) [])) =
     Inr \<lparr>Schema = ''http://json-schema.org/schema#'',
          property = Property ''array'' ''''
            (Some (Property ''integer'' '''' None None [] False)) None [] False\<rparr>"
  by (simp add: Read_def NewDocument_def setDefaultSchema_def defaultSchema_def Let_def
        read_Struct read_Slice read_Basic getTypeFromMapping_unnamed
        parseTag_def Contains_def empty_property_def)

section \<open>Serialization\<close>

lemma map_insort_key_fst:
  assumes "\<And>x. fst (h x) = fst x"
  shows "map h (insort_key fst x ys) = insort_key fst (h x) (map h ys)"
  by (induction ys) (simp_all add: assms)

lemma map_sort_key_fst:
  assumes "\<And>x. fst (h x) = fst x"
  shows "map h (sort_key fst xs) = sort_key fst (map h xs)"
  by (induction xs) (simp_all add: map_insort_key_fst [OF assms])

lemma distinct_map_sort_key: "distinct (map f (sort_key f xs)) = distinct (map f xs)"
  by (induction xs) (simp_all add: distinct_insort_key)

lemma sort_key_fst_unique:
  assumes "distinct (map fst xs)" and "distinct (map fst ys)" and "set xs = set ys"
  shows "sort_key fst xs = sort_key fst ys"
proof (rule map_sorted_distinct_set_unique [where f = fst])
  from assms(1) have "inj_on fst (set xs)" by (simp add: distinct_map)
  with assms(3) show "inj_on fst (set (sort_key fst xs) \<union> set (sort_key fst ys))" by simp
  show "sorted (map fst (sort_key fst xs))" "sorted (map fst (sort_key fst ys))"
    by (rule sorted_sort_key)+
  show "distinct (map fst (sort_key fst xs))" "distinct (map fst (sort_key fst ys))"
    using assms(1,2) by (simp_all add: distinct_map_sort_key)
  show "set (sort_key fst xs) = set (sort_key fst ys)" using assms(3) by simp
qed

lemma sorted_members_eq:
  fixes g :: "'a \<Rightarrow> 'b" and m m' :: "(string \<times> 'a) list"
  assumes d: "distinct (map fst m)" and d': "distinct (map fst m')"
    and len: "length m = length m'"
    and rel: "\<And>k c. (k, c) \<in> set m \<Longrightarrow> \<exists>c'. map_of m' k = Some c' \<and> g c = g c'"
  shows "map (\<lambda>(k, c). (k, g c)) (sort_key fst m) = map (\<lambda>(k, c). (k, g c)) (sort_key fst m')"
proof -
  let ?h = "\<lambda>(k, c). (k, g c) :: string \<times> 'b"
  have fst_h: "fst (?h x) = fst x" for x by (cases x) simp
  have keys: "map fst (map ?h xs) = map fst xs" for xs
    by (induction xs) (simp_all add: fst_h)
  have sub: "set (map ?h m) \<subseteq> set (map ?h m')"
  proof
    fix z assume "z \<in> set (map ?h m)"
    then obtain k c where kc: "(k, c) \<in> set m" and z: "z = (k, g c)" by auto
    from rel [OF kc] obtain c' where "map_of m' k = Some c'" and "g c = g c'" by blast
    then have "(k, c') \<in> set m'" and "z = ?h (k, c')" using z by (auto dest: map_of_SomeD)
    then show "z \<in> set (map ?h m')" by force
  qed
  have dm: "distinct (map ?h m)" and dm': "distinct (map ?h m')"
    using d d' keys distinct_map by metis+
  have "card (set (map ?h m)) = length (map ?h m)"
    and "card (set (map ?h m')) = length (map ?h m')"
    by (rule distinct_card [OF dm], rule distinct_card [OF dm'])
  then have "card (set (map ?h m)) = card (set (map ?h m'))"
    using len by simp
  with sub have eq: "set (map ?h m) = set (map ?h m')"
    by (simp add: card_subset_eq)
  have "sort_key fst (map ?h m) = sort_key fst (map ?h m')"
    by (rule sort_key_fst_unique) (simp_all only: keys d d' eq)
  then show ?thesis
    by (simp only: map_sort_key_fst [of ?h, OF fst_h])
qed

lemma same_node_members: "same_node p q \<Longrightarrow> property_members p = property_members q"
proof (induction p q rule: same_node.induct)
  case (1 t f i ps r a q)
  obtain t' f' i' ps' r' a' where q: "q = Property t' f' i' ps' r' a'" by (cases q)
  from "1.prems" q have same: "t' = t" "f' = f" "r' = r" "a' = a" by simp_all
  have items: "(case i of None \<Rightarrow> [] | Some x \<Rightarrow> [(''items'', JObject (property_members x))]) =
               (case i' of None \<Rightarrow> [] | Some x \<Rightarrow> [(''items'', JObject (property_members x))])"
  proof (cases i)
    case None
    with "1.prems" q show ?thesis by (cases i') simp_all
  next
    case (Some x)
    with "1.prems" q obtain y where y: "i' = Some y" and xy: "same_node x y"
      by (cases i') simp_all
    from y q have iq: "Items q = Some y" by simp
    have "property_members x = property_members y"
      by (rule "1.IH"(1) [OF refl Some iq xy])
    with Some y show ?thesis by simp
  qed
  have props: "(case ps of None \<Rightarrow> [] | Some m \<Rightarrow>
                  if length m = 0 then []
                  else [(''properties'',
                    JObject (map (\<lambda>(k, c). (k, JObject (property_members c))) (sort_key fst m)))]) =
               (case ps' of None \<Rightarrow> [] | Some m \<Rightarrow>
                  if length m = 0 then []
                  else [(''properties'',
                    JObject (map (\<lambda>(k, c). (k, JObject (property_members c))) (sort_key fst m)))])"
  proof (cases ps)
    case None
    with "1.prems" q show ?thesis by (cases ps') simp_all
  next
    case (Some m)
    with "1.prems" q obtain m' where m': "ps' = Some m'"
      and d: "distinct (map fst m)" and d': "distinct (map fst m')" and len: "length m = length m'"
      and all: "list_all (\<lambda>(k, c). case map_of m' k of None \<Rightarrow> False | Some c' \<Rightarrow> same_node c c') m"
      by (cases ps') simp_all
    have rel: "\<exists>c'. map_of m' k = Some c' \<and>
                 JObject (property_members c) = JObject (property_members c')"
      if kc: "(k, c) \<in> set m" for k c
    proof -
      from all kc obtain c' where c': "map_of m' k = Some c'" and s: "same_node c c'"
        by (auto simp: list_all_iff split: option.splits)
      from m' q have pq: "Properties q = Some m'" by simp
      have "property_members c = property_members c'"
        by (rule "1.IH"(2) [OF refl Some pq kc refl c' s])
      with c' show ?thesis by simp
    qed
    have "map (\<lambda>(k, c). (k, JObject (property_members c))) (sort_key fst m) =
          map (\<lambda>(k, c). (k, JObject (property_members c))) (sort_key fst m')"
      by (rule sorted_members_eq [OF d d' len rel])
    with Some m' len show ?thesis by simp
  qed
  show ?case
    unfolding q same property_members.simps using items props by simp
qed

lemma list_all_self:
  fixes m :: "(string \<times> property) list"
  assumes d: "distinct (map fst m)"
  shows "list_all (\<lambda>(k, c). case map_of m k of None \<Rightarrow> False | Some c' \<Rightarrow> same_node c c') m
        \<longleftrightarrow> (\<forall>(k, c) \<in> set m. same_node c c)"
  unfolding list_all_iff
proof (rule ball_cong [OF refl])
  fix x assume x: "x \<in> set m"
  obtain k c where kc: "x = (k, c)" by (cases x)
  from x kc d have "map_of m k = Some c" by simp
  then show "(case x of (k, c) \<Rightarrow> case map_of m k of None \<Rightarrow> False | Some c' \<Rightarrow> same_node c c')
           = (case x of (k, c) \<Rightarrow> same_node c c)"
    by (simp add: kc)
qed


lemma same_node_self:
  "same_node (Property t f i ps r a) (Property t f i ps r a) \<longleftrightarrow>
     (case i of None \<Rightarrow> True | Some x \<Rightarrow> same_node x x) \<and>
     (case ps of None \<Rightarrow> True
      | Some m \<Rightarrow> distinct (map fst m) \<and> (\<forall>(k, c) \<in> set m. same_node c c))"
proof -
  have eq:
    "(distinct (map fst m) \<and>
      list_all (\<lambda>(k, c). case map_of m k of None \<Rightarrow> False | Some c' \<Rightarrow> same_node c c') m)
     = (distinct (map fst m) \<and> (\<forall>(k, c) \<in> set m. same_node c c))"
    for m :: "(string \<times> property) list"
    using list_all_self [of m] by blast
  show ?thesis
  proof (cases ps)
    case None
    then show ?thesis by (cases i) simp_all
  next
    case (Some m)
    then show ?thesis using eq [of m] by (cases i) simp_all
  qed
qed

lemma same_node_self_sel:
  "same_node p p \<longleftrightarrow>
     (case Items p of None \<Rightarrow> True | Some x \<Rightarrow> same_node x x) \<and>
     (case Properties p of None \<Rightarrow> True
      | Some m \<Rightarrow> distinct (map fst m) \<and> (\<forall>(k, c) \<in> set m. same_node c c))"
  by (cases p) (simp only: same_node_self property.sel)

lemma update_values:
  "(k', c) \<in> set (AList.update k v al) \<Longrightarrow> (k', c) = (k, v) \<or> (k', c) \<in> set al"
  by (induction al) (auto split: if_splits)

lemma foldl_update_values:
  "(k, c) \<in> set (foldl (\<lambda>d (name, property). AList.update name property d) dst al) \<Longrightarrow>
   (k, c) \<in> set dst \<or> (k, c) \<in> set al"
proof (induction al arbitrary: dst)
  case Nil
  then show ?case by simp
next
  case (Cons a al)
  obtain k' v where a: "a = (k', v)" by (cases a)
  from Cons.prems have "(k, c) \<in> set (foldl (\<lambda>d (name, property). AList.update name property d)
                          (AList.update k' v dst) al)"
    by (simp add: a)
  from Cons.IH [OF this] show ?case
    using a by (auto dest: update_values)
qed

lemma range_assign_values:
  "(k, c) \<in> set (range_assign dst m) \<Longrightarrow>
   (k, c) \<in> set dst \<or> (\<exists>al. m = Some al \<and> (k, c) \<in> set al)"
  by (cases m) (auto simp: range_assign_def dest: foldl_update_values)

lemma fields_values:
  assumes "\<forall>(k, c) \<in> set props. same_node c c"
    and "\<forall>f \<in> set fs. same_node (member_node f) (member_node f)"
  shows "\<forall>(k, c) \<in> set (fst (readFromStruct_fields props req fs)). same_node c c"
  using assms
proof (induction fs arbitrary: props req)
  case Nil
  then show ?case by simp
next
  case (Cons f fs)
  from Cons.prems(2) have f: "same_node (member_node f) (member_node f)"
    and rest: "\<forall>g \<in> set fs. same_node (member_node g) (member_node g)" by simp_all
  have spliced: "\<forall>(k, c) \<in> set (range_assign props (Properties (member_node f))). same_node c c"
    using Cons.prems(1) f
    by (subst (asm) same_node_self_sel) (auto dest!: range_assign_values split: option.splits)
  have stored: "\<forall>(k, c) \<in> set (AList.update (resolved_name f) (member_node f) props). same_node c c"
    using Cons.prems(1) f by (auto dest!: update_values)
  show ?case
    unfolding fields_step
    using Cons.IH [OF Cons.prems(1) rest] Cons.IH [OF spliced rest] Cons.IH [OF stored rest]
    by simp
qed

lemma fields_deep_values:
  assumes "\<forall>(k, c) \<in> set props. same_node c c"
    and "\<forall>fv \<in> set fvs. same_node (member_node_deep fv) (member_node_deep fv)"
  shows "\<forall>(k, c) \<in> set (fst (readFromStructDeep_fields props req fvs)). same_node c c"
  using assms
proof (induction fvs arbitrary: props req)
  case Nil
  then show ?case by simp
next
  case (Cons fv fvs)
  from Cons.prems(2) have f: "same_node (member_node_deep fv) (member_node_deep fv)"
    and rest: "\<forall>g \<in> set fvs. same_node (member_node_deep g) (member_node_deep g)" by simp_all
  have spliced:
    "\<forall>(k, c) \<in> set (range_assign props (Properties (member_node_deep fv))). same_node c c"
    using Cons.prems(1) f
    by (subst (asm) same_node_self_sel) (auto dest!: range_assign_values split: option.splits)
  have stored:
    "\<forall>(k, c) \<in> set (AList.update (resolved_name (fst fv)) (member_node_deep fv) props).
        same_node c c"
    using Cons.prems(1) f by (auto dest!: update_values)
  show ?case
    unfolding fields_deep_step
    using Cons.IH [OF Cons.prems(1) rest] Cons.IH [OF spliced rest] Cons.IH [OF stored rest]
    by simp
qed

lemma entries_values:
  assumes "\<forall>(k, c) \<in> set props. same_node c c"
    and "\<forall>(key, val) \<in> set es.
           same_node (readDeep empty_property (Some val) '''') (readDeep empty_property (Some val) '''')"
  shows "\<forall>(k, c) \<in> set (readFromMapDeep_entries props es). same_node c c"
  using assms
proof (induction es arbitrary: props)
  case Nil
  then show ?case by simp
next
  case (Cons a es)
  obtain key val where a: "a = (key, val)" by (cases a)
  have "\<forall>(k, c) \<in> set (AList.update (mapKeyToString (Some key))
          (readDeep empty_property (Some val) '''') props). same_node c c"
    using Cons.prems a by (auto dest!: update_values)
  from Cons.IH [OF this] Cons.prems(2) show ?case
    by (simp add: a)
qed

lemma size_field_Type: "f \<in> set fs \<Longrightarrow> size (field_Type f) < size (StructOf n fs)"
proof -
  assume "f \<in> set fs"
  then have "size f \<le> size_list size fs" by (rule size_list_estimation' [OF _ order_refl])
  moreover have "size (field_Type f) < size f" by (cases f) simp
  ultimately show ?thesis by simp
qed

lemma same_node_leaf [simp]:
  "Items p = None \<Longrightarrow> Properties p = None \<Longrightarrow> same_node p p"
  by (subst same_node_self_sel) simp

lemma read_fresh_same: "same_node (read empty_property t opts) (read empty_property t opts)"
proof (induction "size t" arbitrary: t opts rule: less_induct)
  case less
  show ?case
  proof (cases "type_String t = ''time.Time''")
    case True
    then show ?thesis by (simp add: read_named)
  next
    case False
    show ?thesis
    proof (cases t)
      case (Basic n b)
      with False show ?thesis by (simp add: read_Basic split: option.splits)
    next
      case (InterfaceType n)
      with False show ?thesis by (simp add: read_Interface)
    next
      case (SliceOf n e)
      have "same_node (read empty_property e '''') (read empty_property e '''')"
        using less [of e "''''"] SliceOf by simp
      with False SliceOf show ?thesis
        by (subst same_node_self_sel) (simp add: read_Slice split: prod.splits)
    next
      case (MapOf n k e)
      with False show ?thesis
        by (subst same_node_self_sel) (simp add: read_Map readFromMap_def split: prod.splits)
    next
      case (PtrTo n e)
      with False less [of e] show ?thesis by (simp add: read_Ptr)
    next
      case (StructOf n fs)
      have members: "\<forall>f \<in> set fs. same_node (member_node f) (member_node f)"
        unfolding member_node_def using less StructOf size_field_Type by blast
      have "\<forall>(k, c) \<in> set (fst (readFromStruct_fields [] [] fs)). same_node c c"
        by (rule fields_values [OF _ members]) simp
      moreover have "distinct (map fst (fst (readFromStruct_fields [] [] fs)))"
        by (rule fields_distinct) simp
      ultimately show ?thesis
        using False StructOf
        by (subst same_node_self_sel)
           (simp add: read_Struct readFromStruct_fields_of del: readFromStruct.simps)
    qed
  qed
qed

lemma readDeep_fresh_same:
  "same_node (readDeep empty_property x opts) (readDeep empty_property x opts)"
proof (induction "size_option size x" arbitrary: x opts rule: less_induct)
  case less
  show ?case
  proof (cases x)
    case None
    then show ?thesis by simp
  next
    case (Some v)
    show ?thesis
    proof (cases "type_String (Value_Type v) = ''time.Time''")
      case True
      with Some show ?thesis by (simp add: readDeep_named)
    next
      case False
      show ?thesis
      proof (cases v)
        case (VBasic n b c)
        with False Some show ?thesis by (simp add: readDeep_Basic split: option.splits)
      next
        case (VInterface n y)
        with False Some less [of y] show ?thesis by (simp add: readDeep_Interface)
      next
        case (VSlice n e vs)
        show ?thesis
        proof (cases vs)
          case Nil
          have "same_node (read empty_property e '''') (read empty_property e '''')"
            by (rule read_fresh_same)
          with False Some VSlice Nil show ?thesis
            by (subst same_node_self_sel) (simp add: readDeep_Slice split: prod.splits)
        next
          case (Cons v0 vs')
          have "same_node (readDeep empty_property (Some v0) '''') (readDeep empty_property (Some v0) '''')"
            using less [of "Some v0" "''''"] Some VSlice Cons by simp
          with False Some VSlice Cons show ?thesis
            by (subst same_node_self_sel) (simp add: readDeep_Slice split: prod.splits)
        qed
      next
        case (VMap n k e es)
        have vals: "\<forall>(key, val) \<in> set es.
           same_node (readDeep empty_property (Some val) '''') (readDeep empty_property (Some val) '''')"
        proof (clarify)
          fix key val assume kv: "(key, val) \<in> set es"
          then have "size_prod size size (key, val) \<le> size_list (size_prod size size) es"
            by (rule size_list_estimation' [OF _ order_refl])
          then have "size_option size (Some val) < size_option size x"
            using Some VMap by simp
          then show "same_node (readDeep empty_property (Some val) '''')
                      (readDeep empty_property (Some val) '''')"
            by (rule less)
        qed
        have "\<forall>(k, c) \<in> set (readFromMapDeep_entries [] es). same_node c c"
          by (rule entries_values [OF _ vals]) simp
        moreover have "distinct (map fst (readFromMapDeep_entries [] es))"
          by (rule entries_distinct) simp
        ultimately show ?thesis
          using False Some VMap
          by (subst same_node_self_sel) (simp add: readDeep_Map Let_def)
      next
        case (VPtr n e y)
        with False Some less [of y] show ?thesis by (simp add: readDeep_Ptr)
      next
        case (VStruct n fvs)
        have members: "\<forall>fv \<in> set fvs. same_node (member_node_deep fv) (member_node_deep fv)"
        proof
          fix fv assume fv: "fv \<in> set fvs"
          then have "size_prod (\<lambda>x. 0) size fv \<le> size_list (size_prod (\<lambda>x. 0) size) fvs"
            by (rule size_list_estimation' [OF _ order_refl])
          then have "size_option size (Some (snd fv)) < size_option size x"
            using Some VStruct by (cases fv) simp
          then show "same_node (member_node_deep fv) (member_node_deep fv)"
            unfolding member_node_deep_def by (rule less)
        qed
        have "\<forall>(k, c) \<in> set (fst (readFromStructDeep_fields [] [] fvs)). same_node c c"
          by (rule fields_deep_values [OF _ members]) simp
        moreover have "distinct (map fst (fst (readFromStructDeep_fields [] [] fvs)))"
          by (rule fields_deep_distinct) simp
        ultimately show ?thesis
          using False Some VStruct
          by (subst same_node_self_sel)
             (simp add: readDeep_Struct readFromStructDeep_fields_of
                del: readFromStructDeep.simps)
      qed
    qed
  qed
qed

text \<open>
  Claim C9. The text that \<open>Marshal\<close> returns for a Document depends on the Document
  value only, not on the order in which the entries of its \<^verbatim>\<open>properties\<close> maps are
  listed, at any depth: two listings of the same value give the same text, the keys
  of every map appearing in sorted order. Every Document that \<open>Read\<close> or \<open>ReadDeep\<close>
  has populated from a new Document is such a value (its maps have distinct keys at
  every depth), so serializing it twice without a change in between gives the same
  text, whatever order the maps are traversed in.
\<close>

theorem marshal_independent_of_listing:
  "(Schema d1 = Schema d2 \<and> same_node (property d1) (property d2) \<longrightarrow>
      Marshal q d1 = Marshal q d2)
   \<and> (Read (NewDocument s) v = Inr d \<longrightarrow> same_node (property d) (property d))
   \<and> same_node (property (ReadDeep (NewDocument s) v)) (property (ReadDeep (NewDocument s) v))"
proof -
  have "Marshal q d1 = Marshal q d2"
    if "Schema d1 = Schema d2" "same_node (property d1) (property d2)"
    using that by (simp add: Marshal_def Document_members_def same_node_members)
  moreover have "same_node (property d) (property d)" if "Read (NewDocument s) v = Inr d"
  proof (cases v)
    case None
    with that show ?thesis by (simp add: Read_def Let_def)
  next
    case (Some x)
    with that have "property d = read empty_property (Value_Type x) ''''"
      by (auto simp: Read_def Let_def NewDocument_def)
    then show ?thesis by (simp add: read_fresh_same)
  qed
  moreover have "same_node (property (ReadDeep (NewDocument s) v))
                   (property (ReadDeep (NewDocument s) v))"
    by (simp add: ReadDeep_def Let_def NewDocument_def readDeep_fresh_same)
  ultimately show ?thesis by blast
qed

theorem marshal_independent_of_listing_witness:
  "Marshal (\<lambda>s. CHR 0x22 # s @ [CHR 0x22])
     \<lparr>Schema = ''http://json-schema.org/schema#'',
      property = Property ''object'' '''' None
        (Some [(''foo'', Property ''boolean'' '''' None None [] False),
               (''Bar'', Property ''object'' '''' None
                  (Some [(''y'', Property ''integer'' '''' None None [] False),
                         (''x'', Property ''integer'' '''' None None [] False)]) [] False)])
        [''foo''] False\<rparr> =
   Marshal (\<lambda>s. CHR 0x22 # s @ [CHR 0x22])
     \<lparr>Schema = ''http://json-schema.org/schema#'',
      property = Property ''object'' '''' None
        (Some [(''Bar'', Property ''object'' '''' None
                  (Some [(''x'', Property ''integer'' '''' None None [] False),
                         (''y'', Property ''integer'' '''' None None [] False)]) [] False),
               (''foo'', Property ''boolean'' '''' None None [] False)])
        [''foo''] False\<rparr>"
proof -
  let ?d1 = "\<lparr>Schema = ''http://json-schema.org/schema#'',
      property = Property ''object'' '''' None
        (Some [(''foo'', Property ''boolean'' '''' None None [] False),
               (''Bar'', Property ''object'' '''' None
                  (Some [(''y'', Property ''integer'' '''' None None [] False),
                         (''x'', Property ''integer'' '''' None None [] False)]) [] False)])
        [''foo''] False\<rparr>"
  let ?d2 = "\<lparr>Schema = ''http://json-schema.org/schema#'',
      property = Property ''object'' '''' None
        (Some [(''Bar'', Property ''object'' '''' None
                  (Some [(''x'', Property ''integer'' '''' None None [] False),
                         (''y'', Property ''integer'' '''' None None [] False)]) [] False),
               (''foo'', Property ''boolean'' '''' None None [] False)])
        [''foo''] False\<rparr>"
  have h1: "Schema ?d1 = Schema ?d2" by simp
  have h2: "same_node (property ?d1) (property ?d2)" by simp
  show ?thesis
    using marshal_independent_of_listing [of ?d1 ?d2] h1 h2 by blast
qed

end
